theory Spec2Isabelle
  imports Complex_Main "HOL-Library.List_Lexorder" "HOL-Library.Char_ord"
begin

section \<open>Parsed JSON values\<close>

text \<open>
  Both tools work on what Python's \<open>json.loads\<close> returns. A dict is an association list
  (looked up with \<open>map_of\<close>); numbers are taken as reals.
\<close>

datatype json =
    JNull
  | JBool bool
  | JNum real
  | JStr string
  | JArr "json list"
  | JObj "(string \<times> json) list"

type_synonym jobject = "(string \<times> json) list"

text \<open>
  The exceptions that occur. \<open>JSONDecodeError\<close> is what \<open>json.loads\<close> raises on text that
  is not JSON; on a nesting deeper than the interpreter's recursion limit it raises
  \<open>RecursionError\<close>, and on an integer literal beyond the digit limit \<open>ValueError\<close>.
  \<open>print\<close> raises \<open>UnicodeEncodeError\<close> where the output stream cannot encode the text.
\<close>

datatype pyerror =
    TypeError | KeyError | ZeroDivisionError | ValueError
  | JSONDecodeError | RecursionError | UnicodeEncodeError

text \<open>\<open>key in obj\<close> for a dict \<open>obj\<close>.\<close>

definition has_key :: "string \<Rightarrow> jobject \<Rightarrow> bool" where
  "has_key k obj = (k \<in> set (map fst obj))"

section \<open>Loops that can raise\<close>

text \<open>A \<open>for\<close> loop whose body can raise: the first error ends the loop.\<close>

fun for_each :: "('b \<Rightarrow> 'a \<Rightarrow> pyerror + 'b) \<Rightarrow> 'b \<Rightarrow> 'a list \<Rightarrow> pyerror + 'b" where
  "for_each body acc [] = Inr acc"
| "for_each body acc (x # xs) =
     (case body acc x of Inl e \<Rightarrow> Inl e | Inr acc' \<Rightarrow> for_each body acc' xs)"

section \<open>What the two extraction loops call\<close>

text \<open>
  Both loops call \<open>json.loads\<close>; the extractor also prints. These are parameters:
  \<open>json_loads\<close> returns the parsed dict or the exception it raises (a buffer always starts
  with an opening brace, lemma \<open>candidate_starts_with_brace\<close>, so a value it returns is a
  dict); \<open>print_extracted\<close> is the \<open>print\<close> after an object was appended and
  \<open>print_failed\<close> the \<open>print\<close> of the \<open>except\<close> clause, each \<open>None\<close> when the line is
  written and the exception otherwise.
\<close>

record env =
  json_loads :: "string \<Rightarrow> pyerror + jobject"
  print_extracted :: "jobject \<Rightarrow> pyerror option"
  print_failed :: "string \<Rightarrow> pyerror option"

section \<open>fix\_training\_data.py: the brace-balanced extractor\<close>

text \<open>
  The local variables of \<open>extract_json_objects\<close>. The loop body is \<open>ext_step\<close>; the
  \<open>try\<close> statement that receives the finished buffer is the parameter \<open>attempt\<close>: it
  returns the objects it appends to \<open>objects\<close> (none or one), or the exception that leaves
  it. An exception that leaves it ends the loop and the function.
\<close>

record 'a ext_state =
  depth :: int
  current_obj :: string
  in_object :: bool
  objects :: "'a list"

definition ext_init :: "'a ext_state" where
  "ext_init = \<lparr>depth = 0, current_obj = [], in_object = False, objects = []\<rparr>"

definition ext_step ::
  "(string \<Rightarrow> pyerror + 'a list) \<Rightarrow> 'a ext_state \<Rightarrow> char \<Rightarrow> pyerror + 'a ext_state" where
  "ext_step attempt s c =
     (let s1 = (if c = CHR ''{''
                then (if depth s = 0 then s\<lparr>in_object := True, current_obj := []\<rparr> else s)
                       \<lparr>depth := depth s + 1\<rparr>
                else s);
          s2 = (if in_object s1 then s1\<lparr>current_obj := current_obj s1 @ [c]\<rparr> else s1)
      in if c = CHR ''}''
         then (let s3 = s2\<lparr>depth := depth s2 - 1\<rparr>
               in if depth s3 = 0 \<and> in_object s3
                  then (case attempt (current_obj s3) of
                          Inl e \<Rightarrow> Inl e
                        | Inr new \<Rightarrow> Inr (s3\<lparr>in_object := False, objects := objects s3 @ new\<rparr>))
                  else Inr s3)
         else Inr s2)"

definition ext_scan :: "(string \<Rightarrow> pyerror + 'a list) \<Rightarrow> string \<Rightarrow> pyerror + 'a ext_state" where
  "ext_scan attempt text = for_each (ext_step attempt) ext_init text"

definition loose_gate :: "jobject \<Rightarrow> bool" where
  "loose_gate obj = (has_key ''name'' obj \<and> has_key ''ability'' obj)"

text \<open>
  The \<open>except json.JSONDecodeError\<close> clause: it prints and goes on; \<open>appended\<close> is what
  the \<open>try\<close> block had appended before the exception.
\<close>

definition on_decode_error :: "env \<Rightarrow> string \<Rightarrow> jobject list \<Rightarrow> pyerror + jobject list" where
  "on_decode_error ev buf appended =
     (case print_failed ev buf of None \<Rightarrow> Inr appended | Some e \<Rightarrow> Inl e)"

text \<open>
  The \<open>try\<close> statement of the extractor: \<open>json.loads\<close>, the loose gate, \<open>append\<close> and
  \<open>print\<close> inside \<open>try\<close>; only \<open>JSONDecodeError\<close> is caught, every other exception leaves
  the statement.
\<close>

definition attempt_parse :: "env \<Rightarrow> string \<Rightarrow> pyerror + jobject list" where
  "attempt_parse ev buf =
     (case json_loads ev buf of
        Inl e \<Rightarrow> if e = JSONDecodeError then on_decode_error ev buf [] else Inl e
      | Inr obj \<Rightarrow>
          if loose_gate obj
          then (case print_extracted ev obj of
                  None \<Rightarrow> Inr [obj]
                | Some e \<Rightarrow> if e = JSONDecodeError then on_decode_error ev buf [obj] else Inl e)
          else Inr [])"

definition extract_json_objects :: "env \<Rightarrow> string \<Rightarrow> pyerror + jobject list" where
  "extract_json_objects ev text =
     (case ext_scan (attempt_parse ev) text of
        Inl e \<Rightarrow> Inl e
      | Inr s \<Rightarrow> Inr (objects s))"

subsection \<open>The loop with a \<open>try\<close> statement that raises nothing\<close>

text \<open>
  With a \<open>try\<close> statement that always returns, the loop body always returns a state and
  the loop is a fold. Run with the statement that records its buffer, the loop yields the
  buffers that reach \<open>json.loads\<close>, in the order they reach it, and the values of
  \<open>depth\<close>.
\<close>

definition pure_step :: "(string \<Rightarrow> 'a list) \<Rightarrow> 'a ext_state \<Rightarrow> char \<Rightarrow> 'a ext_state" where
  "pure_step a s c = (case ext_step (\<lambda>buf. Inr (a buf)) s c of Inr s' \<Rightarrow> s' | Inl e \<Rightarrow> s)"

definition pure_scan :: "(string \<Rightarrow> 'a list) \<Rightarrow> string \<Rightarrow> 'a ext_state" where
  "pure_scan a text = foldl (pure_step a) ext_init text"

definition candidate_spans :: "string \<Rightarrow> string list" where
  "candidate_spans text = objects (pure_scan (\<lambda>buf. [buf]) text)"

text \<open>The value of \<open>depth\<close> after the loop has read \<open>text\<close>.\<close>

definition depth_after :: "string \<Rightarrow> int" where
  "depth_after text = depth (pure_scan (\<lambda>buf. [buf]) text)"

section \<open>analyze\_training\_diversity.py: the inline fallback of main\<close>

text \<open>
  The fallback's loop has no \<open>in_object\<close> flag, and its \<open>try\<close> statement has a bare
  \<open>except: pass\<close> and no \<open>print\<close>: whatever \<open>json.loads\<close> raises, the buffer is dropped
  and the loop goes on.
\<close>

record 'a fb_state =
  fb_depth :: int
  fb_current_obj :: string
  fb_data :: "'a list"

definition fb_init :: "'a fb_state" where
  "fb_init = \<lparr>fb_depth = 0, fb_current_obj = [], fb_data = []\<rparr>"

definition fb_step :: "(string \<Rightarrow> 'a list) \<Rightarrow> 'a fb_state \<Rightarrow> char \<Rightarrow> 'a fb_state" where
  "fb_step attempt s c =
     (let s1 = (if c = CHR ''{''
                then (if fb_depth s = 0 then s\<lparr>fb_current_obj := []\<rparr> else s)
                       \<lparr>fb_depth := fb_depth s + 1\<rparr>
                else s);
          s2 = (if fb_depth s1 > 0 then s1\<lparr>fb_current_obj := fb_current_obj s1 @ [c]\<rparr> else s1)
      in if c = CHR ''}''
         then (let s3 = s2\<lparr>fb_depth := fb_depth s2 - 1\<rparr>
               in if fb_depth s3 = 0
                  then s3\<lparr>fb_data := fb_data s3 @ attempt (fb_current_obj s3)\<rparr>
                  else s3)
         else s2)"

definition fb_attempt :: "env \<Rightarrow> string \<Rightarrow> jobject list" where
  "fb_attempt ev buf =
     (case json_loads ev buf of
        Inl e \<Rightarrow> []
      | Inr obj \<Rightarrow> if loose_gate obj then [obj] else [])"

definition fallback_extract :: "env \<Rightarrow> string \<Rightarrow> jobject list" where
  "fallback_extract ev text = fb_data (foldl (fb_step (fb_attempt ev)) fb_init text)"

section \<open>Example environments and texts\<close>

text \<open>
  A stand-in for \<open>json.loads\<close> that knows two objects, written \<open>{a}\<close> and \<open>{b}\<close> for
  short, and rejects every other buffer as not JSON; both \<open>print\<close>s succeed.
\<close>

definition example_env :: env where
  "example_env =
     \<lparr>json_loads = (\<lambda>buf.
         if buf = ''{a}'' then Inr [(''name'', JStr ''a''), (''ability'', JObj [])]
         else if buf = ''{b}'' then Inr [(''name'', JStr ''b''), (''ability'', JObj [])]
         else Inl JSONDecodeError),
      print_extracted = (\<lambda>obj. None),
      print_failed = (\<lambda>buf. None)\<rparr>"

text \<open>
  Two deeply nested buffers: one malformed, \<open>{"a":\<close> followed by 100000 opening brackets
  and a closing brace, and one well-formed, an ability object whose \<open>ability\<close> is an
  array nested 100000 deep. On both \<open>json.loads\<close> raises \<open>RecursionError\<close> (about 1000
  levels suffice under the default recursion limit). \<open>object_b\<close> is an ordinary object.
\<close>

definition deep_malformed :: string where
  \<open>deep_malformed = CHR ''{'' # (''"a":'' @ replicate 100000 (CHR ''['')) @ ''}''\<close>

definition deep_object :: string where
  \<open>deep_object =
     CHR ''{'' # (''"name":"deep","ability":'' @ replicate 100000 (CHR ''['')
                   @ replicate 100000 (CHR '']'')) @ ''}''\<close>

definition object_b :: string where
  \<open>object_b = ''{"name":"b","ability":{}}''\<close>

definition deep_env :: env where
  "deep_env =
     \<lparr>json_loads = (\<lambda>buf.
         if buf = deep_malformed \<or> buf = deep_object then Inl RecursionError
         else if buf = object_b then Inr [(''name'', JStr ''b''), (''ability'', JObj [])]
         else Inl JSONDecodeError),
      print_extracted = (\<lambda>obj. None),
      print_failed = (\<lambda>buf. None)\<rparr>"

subsection \<open>Notions used to state and prove the extractor's properties\<close>

text \<open>Between two characters, \<open>in_object\<close> holds exactly when \<open>depth\<close> is positive.\<close>

definition ext_inv :: "'a ext_state \<Rightarrow> bool" where
  "ext_inv s = (in_object s \<longleftrightarrow> 0 < depth s)"

text \<open>
  A run with any \<open>try\<close> block against the run that records the buffers: same counter,
  same flag, same buffer while inside an object, and the objects are what the
  \<open>try\<close> block makes of the recorded buffers, after \<open>base\<close>.
\<close>

definition ext_sim :: "'a list \<Rightarrow> (string \<Rightarrow> 'a list) \<Rightarrow> 'a ext_state \<Rightarrow> string ext_state \<Rightarrow> bool" where
  "ext_sim base a s t =
     (depth s = depth t \<and> in_object s = in_object t \<and>
      (in_object s \<longrightarrow> current_obj s = current_obj t) \<and>
      ext_inv t \<and>
      objects s = base @ concat (map a (objects t)))"

text \<open>Two states of the extractor that differ at most in a buffer that is not in use.\<close>

definition ext_eqv :: "'a ext_state \<Rightarrow> 'a ext_state \<Rightarrow> bool" where
  "ext_eqv s t =
     (depth s = depth t \<and> in_object s = in_object t \<and> objects s = objects t \<and>
      (in_object s \<longrightarrow> current_obj s = current_obj t))"


text \<open>
  Two states of the extractor that agree on the counter, the flag and the buffer in use
  (the objects apart).
\<close>

definition ext_core :: "'a ext_state \<Rightarrow> 'b ext_state \<Rightarrow> bool" where
  "ext_core s t =
     (depth s = depth t \<and> in_object s = in_object t \<and>
      (in_object s \<longrightarrow> current_obj s = current_obj t))"

text \<open>
  Trying the buffers one after the other: the objects appended, or the first exception
  that leaves a \<open>try\<close> statement. \<open>appended_by\<close> is what one buffer contributes when
  nothing leaves the statement.
\<close>

definition collect :: "(string \<Rightarrow> pyerror + 'a list) \<Rightarrow> string list \<Rightarrow> pyerror + 'a list" where
  "collect attempt spans =
     for_each (\<lambda>acc buf. case attempt buf of Inl e \<Rightarrow> Inl e | Inr new \<Rightarrow> Inr (acc @ new))
              [] spans"

definition appended_by :: "(string \<Rightarrow> pyerror + 'a list) \<Rightarrow> string \<Rightarrow> 'a list" where
  "appended_by attempt buf = (case attempt buf of Inr new \<Rightarrow> new | Inl e \<Rightarrow> [])"

text \<open>
  The object a buffer yields: the parsed value when the buffer parses and the value has
  the keys \<open>name\<close> and \<open>ability\<close>.
\<close>

definition accepted :: "env \<Rightarrow> string \<Rightarrow> jobject list" where
  "accepted ev buf =
     (case json_loads ev buf of
        Inr obj \<Rightarrow> if loose_gate obj then [obj] else []
      | Inl e \<Rightarrow> [])"

text \<open>A character that is not a brace.\<close>

definition no_brace :: "char \<Rightarrow> bool" where
  "no_brace c = (c \<noteq> CHR ''{'' \<and> c \<noteq> CHR ''}'')"

text \<open>The buffers completed by the character at index \<open>i\<close> of the text (none or one).\<close>

definition completed_at :: "string \<Rightarrow> nat \<Rightarrow> string list" where
  "completed_at text i =
     drop (length (candidate_spans (take i text))) (candidate_spans (take (Suc i) text))"

text \<open>
  After \<open>n\<close> characters no buffer is longer than \<open>n\<close>, and a recorded buffer of length
  \<open>n\<close> was completed by the last character read.
\<close>

definition span_bound :: "nat \<Rightarrow> string ext_state \<Rightarrow> bool" where
  "span_bound n t =
     ((\<forall>b \<in> set (objects t). length b \<le> n) \<and> length (current_obj t) \<le> n \<and>
      (\<forall>b \<in> set (objects t). length b = n \<longrightarrow> depth t = 0 \<and> \<not> in_object t))"

definition opens :: "string \<Rightarrow> nat" where
  "opens buf = count_list buf (CHR ''{'')"

definition closes :: "string \<Rightarrow> nat" where
  "closes buf = count_list buf (CHR ''}'')"

text \<open>
  Inside an object the counter is the number of opening braces of the buffer minus the
  number of its closing braces, and the buffer starts with an opening brace; every
  recorded buffer is balanced and starts with an opening brace.
\<close>

definition balance_inv :: "string ext_state \<Rightarrow> bool" where
  "balance_inv t =
     (ext_inv t \<and>
      (in_object t \<longrightarrow> depth t = int (opens (current_obj t)) - int (closes (current_obj t))
                       \<and> current_obj t \<noteq> [] \<and> hd (current_obj t) = CHR ''{'') \<and>
      (\<forall>b \<in> set (objects t). opens b = closes b \<and> b \<noteq> [] \<and> hd b = CHR ''{''))"

section \<open>fix\_training\_data.py: the strict gate\<close>

subsection \<open>Python's operators on parsed JSON values\<close>

text \<open>\<open>key in s\<close> for two strings: \<open>key\<close> occurs in \<open>s\<close> as a substring.\<close>

fun py_substring :: "string \<Rightarrow> string \<Rightarrow> bool" where
  "py_substring key [] = (key = [])"
| "py_substring key (c # cs) = (take (length key) (c # cs) = key \<or> py_substring key cs)"

text \<open>
  \<open>key in x\<close> for a string \<open>key\<close>: key membership in a dict, element membership in a list,
  substring in a string; \<open>None\<close>, booleans and numbers are not iterable.
\<close>

definition py_contains :: "string \<Rightarrow> json \<Rightarrow> pyerror + bool" where
  "py_contains key x =
     (case x of
        JObj kvs \<Rightarrow> Inr (has_key key kvs)
      | JArr xs \<Rightarrow> Inr (JStr key \<in> set xs)
      | JStr s \<Rightarrow> Inr (py_substring key s)
      | _ \<Rightarrow> Inl TypeError)"

text \<open>\<open>x[key]\<close> for a string \<open>key\<close>: only a dict can be subscripted with a string.\<close>

definition py_getitem :: "json \<Rightarrow> string \<Rightarrow> pyerror + json" where
  "py_getitem x key =
     (case x of
        JObj kvs \<Rightarrow> (case map_of kvs key of None \<Rightarrow> Inl KeyError | Some v \<Rightarrow> Inr v)
      | _ \<Rightarrow> Inl TypeError)"

text \<open>\<open>len(x)\<close>: strings, lists and dicts have a length.\<close>

definition py_len :: "json \<Rightarrow> pyerror + nat" where
  "py_len x =
     (case x of
        JStr s \<Rightarrow> Inr (length s)
      | JArr xs \<Rightarrow> Inr (length xs)
      | JObj kvs \<Rightarrow> Inr (length (remdups (map fst kvs)))
      | _ \<Rightarrow> Inl TypeError)"

text \<open>The truth value of \<open>x\<close>, as \<open>not x\<close> tests it.\<close>

definition py_truthy :: "json \<Rightarrow> bool" where
  "py_truthy x =
     (case x of
        JNull \<Rightarrow> False
      | JBool b \<Rightarrow> b
      | JNum r \<Rightarrow> r \<noteq> 0
      | JStr s \<Rightarrow> s \<noteq> []
      | JArr xs \<Rightarrow> xs \<noteq> []
      | JObj kvs \<Rightarrow> kvs \<noteq> [])"

subsection \<open>validate\_ability\<close>

definition required_fields :: "string list" where
  "required_fields = [''name'', ''description'', ''color'', ''ability'']"

text \<open>
  \<open>'primitives' not in ability or len(ability['primitives']) != 2\<close>, with the
  short-circuit of \<open>or\<close>.
\<close>

definition invalid_primitives :: "json \<Rightarrow> pyerror + bool" where
  "invalid_primitives ability =
     (case py_contains ''primitives'' ability of
        Inl e \<Rightarrow> Inl e
      | Inr present \<Rightarrow>
          if \<not> present then Inr True
          else (case py_getitem ability ''primitives'' of
                  Inl e \<Rightarrow> Inl e
                | Inr p \<Rightarrow> (case py_len p of Inl e \<Rightarrow> Inl e | Inr n \<Rightarrow> Inr (n \<noteq> 2))))"

text \<open>\<open>'effects' not in ability or not ability['effects']\<close>.\<close>

definition missing_effects :: "json \<Rightarrow> pyerror + bool" where
  "missing_effects ability =
     (case py_contains ''effects'' ability of
        Inl e \<Rightarrow> Inl e
      | Inr present \<Rightarrow>
          if \<not> present then Inr True
          else (case py_getitem ability ''effects'' of
                  Inl e \<Rightarrow> Inl e
                | Inr v \<Rightarrow> Inr (\<not> py_truthy v)))"

definition validate_ability :: "jobject \<Rightarrow> pyerror + (bool \<times> string)" where
  "validate_ability ability_obj =
     (case find (\<lambda>field. \<not> has_key field ability_obj) required_fields of
        Some field \<Rightarrow> Inr (False, ''Missing field: '' @ field)
      | None \<Rightarrow>
     (case map_of ability_obj ''ability'' of
        None \<Rightarrow> Inl KeyError
      | Some ability \<Rightarrow>
     (case invalid_primitives ability of
        Inl e \<Rightarrow> Inl e
      | Inr True \<Rightarrow> Inr (False, ''Invalid primitives (must have exactly 2)'')
      | Inr False \<Rightarrow>
     (case missing_effects ability of
        Inl e \<Rightarrow> Inl e
      | Inr True \<Rightarrow> Inr (False, ''Missing effects'')
      | Inr False \<Rightarrow>
     (case py_contains ''cooldown'' ability of
        Inl e \<Rightarrow> Inl e
      | Inr False \<Rightarrow> Inr (False, ''Missing cooldown'')
      | Inr True \<Rightarrow> Inr (True, ''OK''))))))"

text \<open>
  The validation loop of \<open>main\<close>, on the pair \<open>(valid_objects, invalid_count)\<close>. An
  exception of \<open>validate_ability\<close> is not caught and ends the loop.
\<close>

definition validation_step ::
  "jobject list \<times> nat \<Rightarrow> jobject \<Rightarrow> pyerror + (jobject list \<times> nat)" where
  "validation_step st obj =
     (case validate_ability obj of
        Inl e \<Rightarrow> Inl e
      | Inr res \<Rightarrow>
          if fst res then Inr (fst st @ [obj], snd st)
          else Inr (fst st, snd st + 1))"

definition main_validation :: "jobject list \<Rightarrow> pyerror + (jobject list \<times> nat)" where
  "main_validation objs = for_each validation_step ([], 0) objs"

subsection \<open>The strict gate as the specification words it\<close>

text \<open>
  The constraints on the value under \<open>ability\<close>, in the order the validator checks them:
  \<open>primitives\<close> present with length exactly 2; \<open>effects\<close> present and true in Python's
  sense (for a list, a string or a dict: not empty); \<open>cooldown\<close> present.
\<close>

definition primitives_ok :: "json \<Rightarrow> bool" where
  "primitives_ok ability =
     (case ability of
        JObj ab \<Rightarrow> (case map_of ab ''primitives'' of Some p \<Rightarrow> py_len p = Inr 2 | None \<Rightarrow> False)
      | _ \<Rightarrow> False)"

definition effects_ok :: "json \<Rightarrow> bool" where
  "effects_ok ability =
     (case ability of
        JObj ab \<Rightarrow> (case map_of ab ''effects'' of Some v \<Rightarrow> py_truthy v | None \<Rightarrow> False)
      | _ \<Rightarrow> False)"

definition cooldown_ok :: "json \<Rightarrow> bool" where
  "cooldown_ok ability = (case ability of JObj ab \<Rightarrow> has_key ''cooldown'' ab | _ \<Rightarrow> False)"

definition strict_gate :: "jobject \<Rightarrow> bool" where
  "strict_gate obj =
     (has_key ''name'' obj \<and> has_key ''description'' obj \<and> has_key ''color'' obj \<and>
      (case map_of obj ''ability'' of
         Some ability \<Rightarrow> primitives_ok ability \<and> effects_ok ability \<and> cooldown_ok ability
       | None \<Rightarrow> False))"

text \<open>The reason string of the first violated constraint, \<open>None\<close> when none is violated.\<close>

definition first_violation :: "jobject \<Rightarrow> string option" where
  "first_violation obj =
     (case find (\<lambda>field. \<not> has_key field obj) required_fields of
        Some field \<Rightarrow> Some (''Missing field: '' @ field)
      | None \<Rightarrow>
     (case map_of obj ''ability'' of
        None \<Rightarrow> None
      | Some ability \<Rightarrow>
          if \<not> primitives_ok ability then Some ''Invalid primitives (must have exactly 2)''
          else if \<not> effects_ok ability then Some ''Missing effects''
          else if \<not> cooldown_ok ability then Some ''Missing cooldown''
          else None))"

subsection \<open>Example objects\<close>

definition good_obj :: jobject where
  "good_obj =
     [(''name'', JStr ''Fireburst''), (''description'', JStr ''d''), (''color'', JStr ''red''),
      (''ability'', JObj [(''primitives'', JArr [JStr ''fire'', JStr ''fire'']),
                          (''effects'', JArr [JObj [(''script'', JArr [])]]),
                          (''cooldown'', JNum 3)])]"

text \<open>The same object with the number 1 under \<open>effects\<close>.\<close>

definition numeric_effects_obj :: jobject where
  "numeric_effects_obj =
     [(''name'', JStr ''Fireburst''), (''description'', JStr ''d''), (''color'', JStr ''red''),
      (''ability'', JObj [(''primitives'', JArr [JStr ''fire'', JStr ''fire'']),
                          (''effects'', JNum 1),
                          (''cooldown'', JNum 3)])]"

text \<open>An object with three primitives, and one without a colour.\<close>

definition three_primitives_obj :: jobject where
  "three_primitives_obj =
     [(''name'', JStr ''Mud''), (''description'', JStr ''d''), (''color'', JStr ''brown''),
      (''ability'', JObj [(''primitives'', JArr [JStr ''earth'', JStr ''water'', JStr ''fire'']),
                          (''effects'', JArr []),
                          (''cooldown'', JNum 1)])]"

definition no_color_obj :: jobject where
  "no_color_obj = [(''name'', JStr ''Mud''), (''description'', JStr ''d''), (''ability'', JNull)]"

section \<open>analyze\_training\_diversity.py: the statistics engine\<close>

subsection \<open>Arithmetic that can raise\<close>

text \<open>
  Python's \<open>/\<close> raises \<open>ZeroDivisionError\<close> on a zero divisor and \<open>math.log2\<close> raises
  \<open>ValueError\<close> outside its domain. Floats are taken as reals.
\<close>

definition py_div :: "real \<Rightarrow> real \<Rightarrow> pyerror + real" where
  "py_div a b = (if b = 0 then Inl ZeroDivisionError else Inr (a / b))"

definition py_log2 :: "real \<Rightarrow> pyerror + real" where
  "py_log2 x = (if x \<le> 0 then Inl ValueError else Inr (log 2 x))"

text \<open>\<open>min\<close> and \<open>max\<close> of a list raise \<open>ValueError\<close> on the empty list.\<close>

definition py_min :: "nat list \<Rightarrow> pyerror + nat" where
  "py_min xs = (case xs of [] \<Rightarrow> Inl ValueError | x # rest \<Rightarrow> Inr (foldl min x rest))"

definition py_max :: "nat list \<Rightarrow> pyerror + nat" where
  "py_max xs = (case xs of [] \<Rightarrow> Inl ValueError | x # rest \<Rightarrow> Inr (foldl max x rest))"

subsection \<open>collections.Counter\<close>

text \<open>
  A \<open>Counter\<close> is a dict from keys to tallies, in insertion order. \<open>counter_add k c\<close> is
  \<open>c[k] += 1\<close>; \<open>counter_of xs\<close> is \<open>Counter(xs)\<close>.
\<close>

type_synonym 'k counter = "('k \<times> nat) list"

fun counter_add :: "'k \<Rightarrow> 'k counter \<Rightarrow> 'k counter" where
  "counter_add k [] = [(k, 1)]"
| "counter_add k ((k', n) # rest) =
     (if k = k' then (k', n + 1) # rest else (k', n) # counter_add k rest)"

definition counter_of :: "'k list \<Rightarrow> 'k counter" where
  "counter_of xs = foldl (\<lambda>c k. counter_add k c) [] xs"

definition counter_values :: "'k counter \<Rightarrow> nat list" where
  "counter_values c = map snd c"

subsection \<open>DiversityAnalyzer.shannon\_entropy\<close>

definition entropy_step :: "nat \<Rightarrow> real \<Rightarrow> nat \<Rightarrow> pyerror + real" where
  "entropy_step tot entropy count =
     (if count > 0
      then (case py_div (real count) (real tot) of
              Inl e \<Rightarrow> Inl e
            | Inr p \<Rightarrow> (case py_log2 p of
                          Inl e \<Rightarrow> Inl e
                        | Inr l \<Rightarrow> Inr (entropy - p * l)))
      else Inr entropy)"

definition shannon_entropy :: "'k counter \<Rightarrow> pyerror + real" where
  "shannon_entropy counts =
     (let tot = sum_list (counter_values counts)
      in if tot = 0 then Inr 0
         else for_each (entropy_step tot) 0 (counter_values counts))"

text \<open>
  The entropy as the specification words it: with \<open>T\<close> the sum of all counts, minus the sum
  of \<open>(c\<^sub>k/T) * log2 (c\<^sub>k/T)\<close> over the keys \<open>k\<close> whose count \<open>c\<^sub>k\<close> is positive, and 0 when
  \<open>T\<close> is 0.
\<close>

definition count_of :: "'k counter \<Rightarrow> 'k \<Rightarrow> nat" where
  "count_of counts k = (case map_of counts k of None \<Rightarrow> 0 | Some c \<Rightarrow> c)"

definition entropy_spec :: "'k counter \<Rightarrow> real" where
  "entropy_spec counts =
     (let keys = set (map fst counts);
          T = (\<Sum>k\<in>keys. count_of counts k)
      in if T = 0 then 0
         else - (\<Sum>k\<in>{k \<in> keys. 0 < count_of counts k}.
                   (real (count_of counts k) / real T) * log 2 (real (count_of counts k) / real T)))"

subsection \<open>The records the analyzer reads\<close>

text \<open>
  The analyzer reads its records by subscript (\<open>entry['ability']['primitives']\<close>,
  \<open>effect['script']\<close>), which needs the key, and by \<open>.get\<close> with a default, which does
  not. A key read by subscript is a field; \<open>action\<close> and \<open>args\<close>, read by \<open>.get\<close>, are
  optional; an absent \<open>on_hit\<close> is the empty list, its default. The tags the analyses
  tally (primitives, actions, the \<open>shape\<close>, \<open>movement\<close> and \<open>status\<close> arguments) are
  strings.
\<close>

datatype script_node =
  ScriptNode (action: "string option") (args: "(string \<times> string) list option")
             (on_hit: "script_node list")

record effect =
  script :: "script_node list"

record ability_fields =
  primitives :: "string list"
  effects :: "effect list"

record ability_record =
  ability :: ability_fields

text \<open>\<open>d.get(key, default)\<close> on a dict of string tags.\<close>

definition get_or :: "(string \<times> string) list \<Rightarrow> string \<Rightarrow> string \<Rightarrow> string" where
  "get_or d key dflt = (case map_of d key of None \<Rightarrow> dflt | Some v \<Rightarrow> v)"

text \<open>\<open>script.get('args', {})\<close>.\<close>

definition args_or_empty :: "script_node \<Rightarrow> (string \<times> string) list" where
  "args_or_empty node = (case args node of None \<Rightarrow> [] | Some d \<Rightarrow> d)"

subsection \<open>DiversityAnalyzer.analyze\_element\_combinations\<close>

record elements_result =
  el_unique_combinations :: nat
  el_max_possible :: nat
  el_coverage_percent :: real
  el_distribution :: "string list counter"
  el_entropy :: real
  el_max_entropy :: real
  el_evenness_percent :: real
  el_min_samples :: nat
  el_max_samples :: nat
  el_avg_samples :: real

text \<open>The first loop: \<open>combos[tuple(sorted(entry['ability']['primitives']))] += 1\<close>.\<close>

definition element_combos :: "ability_record list \<Rightarrow> string list counter" where
  "element_combos data =
     foldl (\<lambda>combos entry. counter_add (sort (primitives (ability entry))) combos) [] data"

definition analyze_element_combinations :: "ability_record list \<Rightarrow> pyerror + elements_result" where
  "analyze_element_combinations data =
     (let combos = element_combos data;
          max_possible = 28
      in case py_div (real (length combos)) (real max_possible) of
           Inl e \<Rightarrow> Inl e
         | Inr q \<Rightarrow>
      let coverage = q * 100
      in case shannon_entropy combos of
           Inl e \<Rightarrow> Inl e
         | Inr entropy \<Rightarrow>
      case (if combos \<noteq> [] then py_log2 (real (length combos)) else Inr 0) of
           Inl e \<Rightarrow> Inl e
         | Inr max_entropy \<Rightarrow>
      case (if max_entropy > 0
            then (case py_div entropy max_entropy of Inl e \<Rightarrow> Inl e | Inr r \<Rightarrow> Inr (r * 100))
            else Inr 0) of
           Inl e \<Rightarrow> Inl e
         | Inr evenness \<Rightarrow>
      case (if combos \<noteq> [] then py_min (counter_values combos) else Inr 0) of
           Inl e \<Rightarrow> Inl e
         | Inr min_samples \<Rightarrow>
      case (if combos \<noteq> [] then py_max (counter_values combos) else Inr 0) of
           Inl e \<Rightarrow> Inl e
         | Inr max_samples \<Rightarrow>
      case (if combos \<noteq> []
            then py_div (real (sum_list (counter_values combos))) (real (length combos))
            else Inr 0) of
           Inl e \<Rightarrow> Inl e
         | Inr avg_samples \<Rightarrow>
      Inr \<lparr>el_unique_combinations = length combos,
           el_max_possible = max_possible,
           el_coverage_percent = coverage,
           el_distribution = combos,
           el_entropy = entropy,
           el_max_entropy = max_entropy,
           el_evenness_percent = evenness,
           el_min_samples = min_samples,
           el_max_samples = max_samples,
           el_avg_samples = avg_samples\<rparr>)"

subsection \<open>DiversityAnalyzer.analyze\_actions\<close>

record actions_result =
  act_action_distribution :: "string counter"
  act_unique_actions :: nat
  act_entropy :: real
  act_unique_sequences :: nat
  act_sequence_entropy :: real
  act_sequence_diversity_percent :: real

text \<open>\<open>script.get('action', 'unknown')\<close>.\<close>

definition action_or_unknown :: "script_node \<Rightarrow> string" where
  "action_or_unknown node = (case action node of None \<Rightarrow> ''unknown'' | Some a \<Rightarrow> a)"

text \<open>The innermost loop body, on the pair \<open>(actions, sequence)\<close>.\<close>

definition actions_script_step ::
  "string counter \<times> string list \<Rightarrow> script_node \<Rightarrow> string counter \<times> string list" where
  "actions_script_step st node =
     (let a = action_or_unknown node
      in (counter_add a (fst st), snd st @ [a]))"

text \<open>The body of the loop over the entries, on the pair \<open>(actions, action_sequences)\<close>.\<close>

definition actions_entry_step ::
  "string counter \<times> string list list \<Rightarrow> ability_record \<Rightarrow> string counter \<times> string list list" where
  "actions_entry_step st entry =
     (let inner = foldl (\<lambda>s eff. foldl actions_script_step s (script eff))
                        (fst st, []) (effects (ability entry))
      in (fst inner, snd st @ [snd inner]))"

definition analyze_actions :: "ability_record list \<Rightarrow> pyerror + actions_result" where
  "analyze_actions data =
     (let st = foldl actions_entry_step ([], []) data;
          actions = fst st;
          action_sequences = snd st;
          n = length data;
          unique_sequences = length (remdups action_sequences)
      in case shannon_entropy (counter_of action_sequences) of
           Inl e \<Rightarrow> Inl e
         | Inr sequence_entropy \<Rightarrow>
      case shannon_entropy actions of
           Inl e \<Rightarrow> Inl e
         | Inr entropy \<Rightarrow>
      case py_div (real unique_sequences) (real n) of
           Inl e \<Rightarrow> Inl e
         | Inr q \<Rightarrow>
      Inr \<lparr>act_action_distribution = actions,
           act_unique_actions = length actions,
           act_entropy = entropy,
           act_unique_sequences = unique_sequences,
           act_sequence_entropy = sequence_entropy,
           act_sequence_diversity_percent = q * 100\<rparr>)"

subsection \<open>DiversityAnalyzer.analyze\_melee\_attacks\<close>

record melee_result =
  ml_shapes :: "string counter"
  ml_movements :: "string counter"
  ml_shape_movement_combos :: "(string \<times> string) counter"
  ml_shape_entropy :: real
  ml_movement_entropy :: real

type_synonym melee_tallies = "string counter \<times> string counter \<times> (string \<times> string) counter"

text \<open>The innermost loop body, on the triple \<open>(shapes, movements, shape_movement_combos)\<close>.\<close>

definition melee_script_step :: "melee_tallies \<Rightarrow> script_node \<Rightarrow> melee_tallies" where
  "melee_script_step st node =
     (if action node = Some ''spawn_melee''
      then (let a = args_or_empty node;
                shape = get_or a ''shape'' ''unknown'';
                movement = get_or a ''movement'' ''stationary''
            in (counter_add shape (fst st),
                counter_add movement (fst (snd st)),
                counter_add (shape, movement) (snd (snd st))))
      else st)"

definition melee_tally :: "ability_record list \<Rightarrow> melee_tallies" where
  "melee_tally data =
     foldl (\<lambda>st entry.
              foldl (\<lambda>st eff. foldl melee_script_step st (script eff)) st (effects (ability entry)))
           ([], [], []) data"

definition analyze_melee_attacks :: "ability_record list \<Rightarrow> pyerror + melee_result option" where
  "analyze_melee_attacks data =
     (let st = melee_tally data;
          shapes = fst st;
          movements = fst (snd st);
          shape_movement_combos = snd (snd st)
      in if shapes = [] then Inr None
         else case shannon_entropy shapes of
                Inl e \<Rightarrow> Inl e
              | Inr shape_entropy \<Rightarrow>
              case shannon_entropy movements of
                Inl e \<Rightarrow> Inl e
              | Inr movement_entropy \<Rightarrow>
              Inr (Some \<lparr>ml_shapes = shapes,
                         ml_movements = movements,
                         ml_shape_movement_combos = shape_movement_combos,
                         ml_shape_entropy = shape_entropy,
                         ml_movement_entropy = movement_entropy\<rparr>))"

subsection \<open>DiversityAnalyzer.analyze\_status\_effects\<close>

record status_result =
  st_distribution :: "string counter"
  st_unique_statuses :: nat
  st_entropy :: real

text \<open>The nested function \<open>extract_statuses\<close>, with the counter it closes over passed along.\<close>

fun extract_statuses :: "script_node \<Rightarrow> string counter \<Rightarrow> string counter" where
  "extract_statuses (ScriptNode a g kids) statuses =
     foldl (\<lambda>st kid. extract_statuses kid st)
           (if a = Some ''apply_status''
            then counter_add (get_or (case g of None \<Rightarrow> [] | Some d \<Rightarrow> d) ''status'' ''unknown'') statuses
            else statuses)
           kids"

definition analyze_status_effects :: "ability_record list \<Rightarrow> pyerror + status_result" where
  "analyze_status_effects data =
     (let statuses =
            foldl (\<lambda>st entry.
                     foldl (\<lambda>st eff. foldl (\<lambda>st node. extract_statuses node st) st (script eff))
                           st (effects (ability entry)))
                  [] data
      in case shannon_entropy statuses of
           Inl e \<Rightarrow> Inl e
         | Inr entropy \<Rightarrow>
      Inr \<lparr>st_distribution = statuses,
           st_unique_statuses = length statuses,
           st_entropy = entropy\<rparr>)"

subsection \<open>DiversityAnalyzer.analyze\_complexity\<close>

record complexity_result =
  cx_avg_scripts_per_ability :: real
  cx_min_scripts :: nat
  cx_max_scripts :: nat
  cx_avg_nesting_depth :: real
  cx_max_nesting_depth :: nat
  cx_complexity_entropy :: real

fun get_max_depth :: "script_node \<Rightarrow> nat \<Rightarrow> nat" where
  "get_max_depth (ScriptNode a g kids) d =
     foldl (\<lambda>max_d kid. max max_d (get_max_depth kid (d + 1))) d kids"

text \<open>Per entry, the pair \<open>(total_scripts, max_depth)\<close>.\<close>

definition complexity_of_entry :: "ability_record \<Rightarrow> nat \<times> nat" where
  "complexity_of_entry entry =
     foldl (\<lambda>st eff.
              foldl (\<lambda>st node. (fst st + 1, max (snd st) (get_max_depth node 0))) st (script eff))
           (0, 0) (effects (ability entry))"

definition analyze_complexity :: "ability_record list \<Rightarrow> pyerror + complexity_result" where
  "analyze_complexity data =
     (let st = foldl (\<lambda>st entry. (fst st @ [fst (complexity_of_entry entry)],
                                   snd st @ [snd (complexity_of_entry entry)]))
                     ([], []) data;
          script_lengths = fst st;
          nested_depths = snd st
      in case py_div (real (sum_list script_lengths)) (real (length script_lengths)) of
           Inl e \<Rightarrow> Inl e
         | Inr avg_scripts \<Rightarrow>
      case py_min script_lengths of
           Inl e \<Rightarrow> Inl e
         | Inr min_scripts \<Rightarrow>
      case py_max script_lengths of
           Inl e \<Rightarrow> Inl e
         | Inr max_scripts \<Rightarrow>
      case py_div (real (sum_list nested_depths)) (real (length nested_depths)) of
           Inl e \<Rightarrow> Inl e
         | Inr avg_depth \<Rightarrow>
      case py_max nested_depths of
           Inl e \<Rightarrow> Inl e
         | Inr max_depth \<Rightarrow>
      case shannon_entropy (counter_of script_lengths) of
           Inl e \<Rightarrow> Inl e
         | Inr complexity_entropy \<Rightarrow>
      Inr \<lparr>cx_avg_scripts_per_ability = avg_scripts,
           cx_min_scripts = min_scripts,
           cx_max_scripts = max_scripts,
           cx_avg_nesting_depth = avg_depth,
           cx_max_nesting_depth = max_depth,
           cx_complexity_entropy = complexity_entropy\<rparr>)"

subsection \<open>DiversityAnalyzer.calculate\_overall\_diversity\_score\<close>

record analyses =
  an_elements :: elements_result
  an_actions :: actions_result
  an_status_effects :: status_result
  an_complexity :: complexity_result

definition calculate_overall_diversity_score :: "analyses \<Rightarrow> pyerror + real" where
  "calculate_overall_diversity_score a =
     (let scores = [];
          scores = scores @ [el_coverage_percent (an_elements a)];
          scores = scores @ [el_evenness_percent (an_elements a)];
          scores = scores @ [act_sequence_diversity_percent (an_actions a)]
      in case py_log2 5 of
           Inl e \<Rightarrow> Inl e
         | Inr max_complexity_entropy \<Rightarrow>
      case py_div (cx_complexity_entropy (an_complexity a)) max_complexity_entropy of
           Inl e \<Rightarrow> Inl e
         | Inr q \<Rightarrow>
      let complexity_score = q * 100;
          scores = scores @ [min complexity_score 100]
      in case py_div (real (st_unique_statuses (an_status_effects a))) 10 of
           Inl e \<Rightarrow> Inl e
         | Inr r \<Rightarrow>
      let status_coverage = r * 100;
          scores = scores @ [min status_coverage 100]
      in py_div (sum_list scores) (real (length scores)))"

text \<open>
  The part of \<open>generate_report\<close> that computes \<open>overall_score\<close> from the data: the four
  analyses that feed the score, in the order of the calls, then the score. (The melee and
  parameter analyses, called in between, do not feed the score.)
\<close>

definition overall_score :: "ability_record list \<Rightarrow> pyerror + real" where
  "overall_score data =
     (case analyze_element_combinations data of
        Inl e \<Rightarrow> Inl e
      | Inr elem_analysis \<Rightarrow>
      case analyze_actions data of
        Inl e \<Rightarrow> Inl e
      | Inr action_analysis \<Rightarrow>
      case analyze_status_effects data of
        Inl e \<Rightarrow> Inl e
      | Inr status_analysis \<Rightarrow>
      case analyze_complexity data of
        Inl e \<Rightarrow> Inl e
      | Inr complexity_analysis \<Rightarrow>
      calculate_overall_diversity_score
        \<lparr>an_elements = elem_analysis,
         an_actions = action_analysis,
         an_status_effects = status_analysis,
         an_complexity = complexity_analysis\<rparr>)"

subsection \<open>Notions used to state and prove the analyzer's properties\<close>

text \<open>One summand of the entropy, and the value \<open>shannon_entropy\<close> returns.\<close>

definition entropy_term :: "nat \<Rightarrow> nat \<Rightarrow> real" where
  "entropy_term tot c = (if c > 0 then (real c / real tot) * log 2 (real c / real tot) else 0)"

definition entropy_value :: "'k counter \<Rightarrow> real" where
  "entropy_value counts =
     (if sum_list (counter_values counts) = 0 then 0
      else - sum_list (map (entropy_term (sum_list (counter_values counts))) (counter_values counts)))"

text \<open>The key under which an entry is tallied: \<open>tuple(sorted(entry['ability']['primitives']))\<close>.\<close>

definition combo_key :: "ability_record \<Rightarrow> string list" where
  "combo_key entry = sort (primitives (ability entry))"

text \<open>The script nodes the loops over \<open>effects\<close> and \<open>script\<close> visit: the top-level ones.\<close>

definition top_level_nodes :: "ability_record list \<Rightarrow> script_node list" where
  "top_level_nodes data = concat (map (\<lambda>entry. concat (map script (effects (ability entry)))) data)"

definition is_melee :: "script_node \<Rightarrow> bool" where
  "is_melee node = (action node = Some ''spawn_melee'')"

definition melee_nodes :: "ability_record list \<Rightarrow> script_node list" where
  "melee_nodes data = filter is_melee (top_level_nodes data)"

definition melee_shape :: "script_node \<Rightarrow> string" where
  "melee_shape node = get_or (args_or_empty node) ''shape'' ''unknown''"

definition melee_movement :: "script_node \<Rightarrow> string" where
  "melee_movement node = get_or (args_or_empty node) ''movement'' ''stationary''"

text \<open>
  A node with the given action anywhere in the tree of a node, \<open>on_hit\<close> chains included,
  and anywhere in the dataset.
\<close>

fun node_has_action :: "string \<Rightarrow> script_node \<Rightarrow> bool" where
  "node_has_action a (ScriptNode act g kids) = (act = Some a \<or> list_ex (node_has_action a) kids)"

definition has_action_anywhere :: "string \<Rightarrow> ability_record list \<Rightarrow> bool" where
  "has_action_anywhere a data = list_ex (node_has_action a) (top_level_nodes data)"

subsection \<open>Example data\<close>

text \<open>
  Abilities with pairwise different pairs of primitives: entry \<open>i\<close> has the primitives
  \<open>a\<dots>a\<close> (\<open>i + 1\<close> letters) and \<open>b\<close>, and one effect with one \<open>damage\<close> node.
\<close>

definition sample_entry :: "nat \<Rightarrow> ability_record" where
  "sample_entry i =
     \<lparr>ability = \<lparr>primitives = [replicate (Suc i) (CHR ''a''), ''b''],
                  effects = [\<lparr>script = [ScriptNode (Some ''damage'') None []]\<rparr>]\<rparr>\<rparr>"

definition sample_data :: "nat \<Rightarrow> ability_record list" where
  "sample_data n = map sample_entry [0..<n]"

text \<open>An ability whose only \<open>spawn_melee\<close> node sits in the \<open>on_hit\<close> list of a projectile.\<close>

definition nested_melee_entry :: ability_record where
  "nested_melee_entry =
     \<lparr>ability = \<lparr>primitives = [''fire'', ''earth''],
                  effects = [\<lparr>script =
                     [ScriptNode (Some ''spawn_projectile'') None
                        [ScriptNode (Some ''spawn_melee'') (Some [(''shape'', ''arc'')]) []]]\<rparr>]\<rparr>\<rparr>"

text \<open>An ability with two top-level \<open>spawn_melee\<close> nodes.\<close>

definition melee_entry :: ability_record where
  "melee_entry =
     \<lparr>ability = \<lparr>primitives = [''fire'', ''earth''],
                  effects = [\<lparr>script =
                     [ScriptNode (Some ''spawn_melee'') (Some [(''shape'', ''arc'')]) [],
                      ScriptNode (Some ''spawn_melee'') None []]\<rparr>]\<rparr>\<rparr>"

section \<open>Properties of the extractor\<close>

subsection \<open>The loop when nothing is raised\<close>

lemma pure_step_eq:
  "pure_step a s c =
     (let s1 = (if c = CHR ''{''
                then (if depth s = 0 then s\<lparr>in_object := True, current_obj := []\<rparr> else s)
                       \<lparr>depth := depth s + 1\<rparr>
                else s);
          s2 = (if in_object s1 then s1\<lparr>current_obj := current_obj s1 @ [c]\<rparr> else s1)
      in if c = CHR ''}''
         then (let s3 = s2\<lparr>depth := depth s2 - 1\<rparr>
               in if depth s3 = 0 \<and> in_object s3
                  then s3\<lparr>in_object := False, objects := objects s3 @ a (current_obj s3)\<rparr>
                  else s3)
         else s2)"
  by (simp add: pure_step_def ext_step_def Let_def)

lemma pure_step_depth:
  "depth (pure_step a s c) = depth s + (if c = CHR ''{'' then 1 else if c = CHR ''}'' then - 1 else 0)"
  by (simp add: pure_step_eq Let_def)

lemma pure_step_objects:
  "objects (pure_step a s c) =
     objects s @ (if c = CHR ''}'' \<and> in_object s \<and> depth s = 1 then a (current_obj s @ [c]) else [])"
  by (simp add: pure_step_eq Let_def)

lemma pure_step_in_object:
  "in_object (pure_step a s c) =
     (if c = CHR ''{'' then (depth s = 0 \<or> in_object s)
      else if c = CHR ''}'' then (in_object s \<and> depth s \<noteq> 1)
      else in_object s)"
  by (simp add: pure_step_eq Let_def)

lemma pure_step_current_obj:
  "current_obj (pure_step a s c) =
     (if c = CHR ''{'' then (if depth s = 0 then [c] else if in_object s then current_obj s @ [c] else current_obj s)
      else if in_object s then current_obj s @ [c] else current_obj s)"
  by (simp add: pure_step_eq Let_def)

lemma pure_scan_snoc: "pure_scan a (xs @ [c]) = pure_step a (pure_scan a xs) c"
  by (simp add: pure_scan_def)

lemma pure_scan_append: "pure_scan a (xs @ ys) = foldl (pure_step a) (pure_scan a xs) ys"
  by (simp add: pure_scan_def)

lemma ext_inv_step: "ext_inv s \<Longrightarrow> ext_inv (pure_step a s c)"
  by (auto simp add: ext_inv_def pure_step_depth pure_step_in_object)

lemma ext_inv_foldl: "ext_inv s \<Longrightarrow> ext_inv (foldl (pure_step a) s xs)"
  by (induction xs arbitrary: s) (simp_all add: ext_inv_step)

lemma ext_inv_init: "ext_inv ext_init"
  by (simp add: ext_inv_def ext_init_def)

lemma ext_inv_scan: "ext_inv (pure_scan a text)"
  unfolding pure_scan_def by (rule ext_inv_foldl) (rule ext_inv_init)

lemma ext_sim_step:
  "ext_sim base a s t \<Longrightarrow> ext_sim base a (pure_step a s c) (pure_step (\<lambda>buf. [buf]) t c)"
  unfolding ext_sim_def
  by (auto simp add: pure_step_depth pure_step_in_object pure_step_current_obj pure_step_objects
        ext_inv_step  simp: ext_inv_def)

lemma ext_sim_foldl:
  "ext_sim base a s t \<Longrightarrow>
     ext_sim base a (foldl (pure_step a) s xs) (foldl (pure_step (\<lambda>buf. [buf])) t xs)"
  by (induction xs arbitrary: s t) (simp_all add: ext_sim_step)

lemma ext_sim_scan: "ext_sim [] a (pure_scan a text) (pure_scan (\<lambda>buf. [buf]) text)"
  unfolding pure_scan_def
  by (rule ext_sim_foldl) (simp add: ext_sim_def ext_init_def ext_inv_def)

lemma concat_map_concat:
  "concat (map f (concat xss)) = concat (map (\<lambda>xs. concat (map f xs)) xss)"
  by (induction xss) simp_all

lemma opens_snoc: "opens (xs @ [c]) = opens xs + (if c = CHR ''{'' then 1 else 0)"
  by (simp add: opens_def)

lemma closes_snoc: "closes (xs @ [c]) = closes xs + (if c = CHR ''}'' then 1 else 0)"
  by (simp add: closes_def)

lemma opens_single: "opens [c] = (if c = CHR ''{'' then 1 else 0)"
  by (simp add: opens_def)

lemma closes_single: "closes [c] = (if c = CHR ''}'' then 1 else 0)"
  by (simp add: closes_def)

lemma balance_inv_step:
  assumes "balance_inv t"
  shows "balance_inv (pure_step (\<lambda>buf. [buf]) t c)"
proof -
  consider (op) "c = CHR ''{''" | (cl) "c = CHR ''}''" | (other) "c \<noteq> CHR ''{''" "c \<noteq> CHR ''}''"
    by blast
  then show ?thesis
  proof cases
    case op
    with assms show ?thesis
      unfolding balance_inv_def
      by (cases "in_object t")
         (auto simp add: pure_step_depth pure_step_in_object pure_step_current_obj pure_step_objects
            ext_inv_def opens_snoc closes_snoc opens_single closes_single)
  next
    case cl
    with assms show ?thesis
      unfolding balance_inv_def
      by (cases "in_object t"; cases "depth t = 1")
         (simp_all add: pure_step_depth pure_step_in_object pure_step_current_obj pure_step_objects
            ext_inv_def opens_snoc closes_snoc)
  next
    case other
    with assms show ?thesis
      unfolding balance_inv_def
      by (cases "in_object t")
         (simp_all add: pure_step_depth pure_step_in_object pure_step_current_obj pure_step_objects
            ext_inv_def opens_snoc closes_snoc)
  qed
qed

lemma balance_inv_foldl:
  "balance_inv t \<Longrightarrow> balance_inv (foldl (pure_step (\<lambda>buf. [buf])) t xs)"
  by (induction xs arbitrary: t) (simp_all add: balance_inv_step)

lemma balance_inv_scan: "balance_inv (pure_scan (\<lambda>buf. [buf]) text)"
  unfolding pure_scan_def
  by (rule balance_inv_foldl) (simp add: balance_inv_def ext_init_def ext_inv_def)

lemma candidate_balanced:
  "b \<in> set (candidate_spans text) \<Longrightarrow> opens b = closes b"
  using balance_inv_scan [of "text"] by (simp add: balance_inv_def candidate_spans_def)

lemma candidate_starts_with_brace:
  "b \<in> set (candidate_spans text) \<Longrightarrow> b \<noteq> [] \<and> hd b = CHR ''{''"
  using balance_inv_scan [of "text"] by (simp add: balance_inv_def candidate_spans_def)

lemma completed_at_eq:
  assumes "i < length text"
  shows "completed_at text i =
           (let s = pure_scan (\<lambda>buf. [buf]) (take i text)
            in if text ! i = CHR ''}'' \<and> in_object s \<and> depth s = 1
               then [current_obj s @ [text ! i]] else [])"
proof -
  have "take (Suc i) text = take i text @ [text ! i]"
    using assms by (rule take_Suc_conv_app_nth)
  then show ?thesis
    by (simp add: completed_at_def candidate_spans_def pure_scan_snoc pure_step_objects Let_def)
qed

lemma candidate_spans_take_Suc:
  assumes "i < length text"
  shows "candidate_spans (take (Suc i) text) = candidate_spans (take i text) @ completed_at text i"
proof -
  have "take (Suc i) text = take i text @ [text ! i]"
    using assms by (rule take_Suc_conv_app_nth)
  then show ?thesis
    by (simp add: completed_at_def candidate_spans_def pure_scan_snoc pure_step_objects)
qed

lemma candidate_spans_take:
  "n \<le> length text \<Longrightarrow>
     candidate_spans (take n text) = concat (map (completed_at text) [0..<n])"
proof (induction n)
  case 0
  show ?case by (simp add: candidate_spans_def pure_scan_def ext_init_def)
next
  case (Suc n)
  then show ?case by (simp add: candidate_spans_take_Suc)
qed

lemma candidate_spans_positions:
  "candidate_spans text = concat (map (completed_at text) [0..<length text])"
  using candidate_spans_take [of "length text" "text"] by simp

lemma ext_eqv_step: "ext_eqv s t \<Longrightarrow> ext_eqv (pure_step a s c) (pure_step a t c)"
  unfolding ext_eqv_def
  by (auto simp add: pure_step_depth pure_step_in_object pure_step_current_obj pure_step_objects)

lemma ext_eqv_foldl: "ext_eqv s t \<Longrightarrow> ext_eqv (foldl (pure_step a) s xs) (foldl (pure_step a) t xs)"
  by (induction xs arbitrary: s t) (simp_all add: ext_eqv_step)

lemma span_bound_step:
  "span_bound n t \<Longrightarrow> span_bound (Suc n) (pure_step (\<lambda>buf. [buf]) t c)"
  unfolding span_bound_def
  by (auto simp add: pure_step_depth pure_step_in_object pure_step_current_obj pure_step_objects)

lemma span_bound_scan: "span_bound (length xs) (pure_scan (\<lambda>buf. [buf]) xs)"
proof (induction xs rule: rev_induct)
  case Nil
  show ?case by (simp add: span_bound_def pure_scan_def ext_init_def)
next
  case (snoc c xs)
  then show ?case using span_bound_step [of "length xs" _ c] by (simp add: pure_scan_snoc)
qed

lemma whole_span_closed:
  assumes "candidate_spans bad = [bad]"
  shows "depth (pure_scan (\<lambda>buf. [buf]) bad) = 0 \<and> \<not> in_object (pure_scan (\<lambda>buf. [buf]) bad)"
  using span_bound_scan [of bad] assms
  by (simp add: span_bound_def candidate_spans_def)



subsection \<open>The loop with exceptions: try the buffers one after the other\<close>

lemma pure_objects_via_spans:
  "objects (pure_scan a text) = concat (map a (candidate_spans text))"
  using ext_sim_scan [of a "text"] by (simp add: ext_sim_def candidate_spans_def)

lemma pure_skip:
  assumes "depth_after pre = 0"
      and "candidate_spans bad = [bad]"
      and "a bad = []"
  shows "objects (pure_scan a (pre @ bad @ post)) = objects (pure_scan a (pre @ post))"
proof -
  let ?s0 = "pure_scan a pre"
  let ?s1 = "foldl (pure_step a) ?s0 bad"
  have sim0: "ext_sim [] a ?s0 (pure_scan (\<lambda>buf. [buf]) pre)"
    by (rule ext_sim_scan)
  with assms(1) have d0: "depth ?s0 = 0" and io0: "\<not> in_object ?s0"
    by (simp_all add: ext_sim_def depth_after_def ext_inv_def)
  have "ext_sim (objects ?s0) a ?s0 ext_init"
    using d0 io0 by (simp add: ext_sim_def ext_init_def ext_inv_def)
  then have "ext_sim (objects ?s0) a ?s1 (pure_scan (\<lambda>buf. [buf]) bad)"
    unfolding pure_scan_def [of "\<lambda>buf. [buf]"] by (rule ext_sim_foldl)
  then have "ext_eqv ?s1 ?s0"
    using whole_span_closed [OF assms(2)] assms(2) assms(3) d0 io0
    by (simp add: ext_sim_def ext_eqv_def candidate_spans_def)
  then have "ext_eqv (foldl (pure_step a) ?s1 post) (foldl (pure_step a) ?s0 post)"
    by (rule ext_eqv_foldl)
  then show ?thesis
    by (simp add: pure_scan_def ext_eqv_def)
qed

lemma for_each_append:
  "for_each f acc (xs @ ys) =
     (case for_each f acc xs of Inl e \<Rightarrow> Inl e | Inr acc' \<Rightarrow> for_each f acc' ys)"
  by (induction xs arbitrary: acc) (simp_all split: sum.splits)

lemma ext_scan_snoc:
  "ext_scan att (xs @ [c]) =
     (case ext_scan att xs of Inl e \<Rightarrow> Inl e | Inr s \<Rightarrow> ext_step att s c)"
  by (simp add: ext_scan_def for_each_append split: sum.splits)

lemma collect_snoc:
  "collect att (spans @ [b]) =
     (case collect att spans of
        Inl e \<Rightarrow> Inl e
      | Inr acc \<Rightarrow> (case att b of Inl e \<Rightarrow> Inl e | Inr new \<Rightarrow> Inr (acc @ new)))"
  by (simp add: collect_def for_each_append split: sum.splits)

lemma ext_step_core:
  assumes "ext_core s t"
  shows "case ext_step att s c of
           Inl e \<Rightarrow> c = CHR ''}'' \<and> in_object t \<and> depth t = 1 \<and> att (current_obj t @ [c]) = Inl e
         | Inr s' \<Rightarrow>
             ext_core s' (pure_step (\<lambda>buf. [buf]) t c) \<and>
             (if c = CHR ''}'' \<and> in_object t \<and> depth t = 1
              then \<exists>new. att (current_obj t @ [c]) = Inr new \<and> objects s' = objects s @ new
              else objects s' = objects s)"
  using assms
  by (auto simp add: ext_core_def ext_step_def pure_step_eq Let_def split: sum.splits)

lemma scan_collect:
  "case ext_scan att xs of
     Inl e \<Rightarrow> collect att (candidate_spans xs) = Inl e
   | Inr s \<Rightarrow> collect att (candidate_spans xs) = Inr (objects s) \<and>
             ext_core s (pure_scan (\<lambda>buf. [buf]) xs)"
proof (induction xs rule: rev_induct)
  case Nil
  show ?case
    by (simp add: ext_scan_def candidate_spans_def pure_scan_def ext_init_def collect_def
          ext_core_def)
next
  case (snoc c xs)
  let ?t = "pure_scan (\<lambda>buf. [buf]) xs"
  have spans: "candidate_spans (xs @ [c]) =
      candidate_spans xs @
        (if c = CHR ''}'' \<and> in_object ?t \<and> depth ?t = 1 then [current_obj ?t @ [c]] else [])"
    by (simp add: candidate_spans_def pure_scan_snoc pure_step_objects)
  show ?case
  proof (cases "ext_scan att xs")
    case (Inl e)
    with snoc have "collect att (candidate_spans xs) = Inl e" by simp
    then have "collect att (candidate_spans (xs @ [c])) = Inl e"
      unfolding spans by (simp add: collect_def for_each_append)
    with Inl show ?thesis by (simp add: ext_scan_snoc)
  next
    case (Inr s)
    with snoc have col: "collect att (candidate_spans xs) = Inr (objects s)"
      and core: "ext_core s ?t" by simp_all
    from ext_step_core [OF core, where att = att and c = c] col
    show ?thesis
      unfolding ext_scan_snoc Inr spans
      by (auto simp add: collect_snoc pure_scan_snoc split: sum.splits if_splits)
  qed
qed

lemma extract_eq_collect:
  "extract_json_objects ev text = collect (attempt_parse ev) (candidate_spans text)"
  using scan_collect [of "attempt_parse ev" "text"]
  by (simp add: extract_json_objects_def split: sum.splits)

lemma for_each_collect_Inr:
  "for_each (\<lambda>acc buf. case att buf of Inl e \<Rightarrow> Inl e | Inr new \<Rightarrow> Inr (acc @ new)) acc spans = Inr res
     \<Longrightarrow> (\<forall>buf \<in> set spans. att buf = Inr (appended_by att buf)) \<and>
         res = acc @ concat (map (appended_by att) spans)"
proof (induction spans arbitrary: acc)
  case Nil
  then show ?case by simp
next
  case (Cons b spans)
  from Cons.prems obtain new where b: "att b = Inr new"
    and rest: "for_each (\<lambda>acc buf. case att buf of Inl e \<Rightarrow> Inl e | Inr new \<Rightarrow> Inr (acc @ new))
                 (acc @ new) spans = Inr res"
    by (auto split: sum.splits)
  from Cons.IH [OF rest] b show ?case
    by (simp add: appended_by_def)
qed

lemma collect_Inr:
  "collect att spans = Inr res \<Longrightarrow>
     (\<forall>buf \<in> set spans. att buf = Inr (appended_by att buf)) \<and>
     res = concat (map (appended_by att) spans)"
  using for_each_collect_Inr [of att "[]" spans res] by (simp add: collect_def)

lemma for_each_collect_total:
  "(\<forall>buf \<in> set spans. \<forall>e. att buf \<noteq> Inl e) \<Longrightarrow>
     for_each (\<lambda>acc buf. case att buf of Inl e \<Rightarrow> Inl e | Inr new \<Rightarrow> Inr (acc @ new)) acc spans
       = Inr (acc @ concat (map (appended_by att) spans))"
proof (induction spans arbitrary: acc)
  case Nil
  show ?case by simp
next
  case (Cons b spans)
  from Cons.prems obtain new where b: "att b = Inr new"
    by (cases "att b") auto
  from Cons.prems have "\<forall>buf \<in> set spans. \<forall>e. att buf \<noteq> Inl e" by simp
  from Cons.IH [OF this, of "acc @ new"] b show ?case
    by (simp add: appended_by_def)
qed

lemma collect_total:
  "(\<forall>buf \<in> set spans. \<forall>e. att buf \<noteq> Inl e) \<Longrightarrow>
     collect att spans = Inr (concat (map (appended_by att) spans))"
  using for_each_collect_total [of spans att "[]"] by (simp add: collect_def)

lemma attempt_parse_Inr:
  "attempt_parse ev buf = Inr new \<Longrightarrow> new = accepted ev buf"
  by (auto simp add: attempt_parse_def accepted_def on_decode_error_def
        split: sum.splits option.splits if_splits)


lemma accepted_elem:
  "obj \<in> set (accepted ev buf) \<Longrightarrow> json_loads ev buf = Inr obj \<and> loose_gate obj"
  by (auto simp add: accepted_def split: sum.splits if_splits)


lemma extract_Inr_accepted:
  assumes "extract_json_objects ev text = Inr objs"
  shows "objs = concat (map (accepted ev) (candidate_spans text))"
proof -
  from assms have c: "collect (attempt_parse ev) (candidate_spans text) = Inr objs"
    by (simp add: extract_eq_collect)
  from collect_Inr [OF c]
  have ok: "\<forall>buf \<in> set (candidate_spans text).
              attempt_parse ev buf = Inr (appended_by (attempt_parse ev) buf)"
    and objs: "objs = concat (map (appended_by (attempt_parse ev)) (candidate_spans text))"
    by simp_all
  have "map (appended_by (attempt_parse ev)) (candidate_spans text)
          = map (accepted ev) (candidate_spans text)"
  proof (rule map_cong)
    fix buf assume "buf \<in> set (candidate_spans text)"
    with ok have "attempt_parse ev buf = Inr (appended_by (attempt_parse ev) buf)" by blast
    then show "appended_by (attempt_parse ev) buf = accepted ev buf"
      by (rule attempt_parse_Inr)
  qed simp
  with objs show ?thesis by simp
qed

subsection \<open>The counter, and the list returned\<close>

text \<open>
  Claim C1. Every candidate span is balanced (lemma \<open>candidate_balanced\<close>), but the
  nesting counter does become negative: the loop decrements \<open>depth\<close> at every closing
  brace, also at depth 0. After the text \<open>}\<close> the counter is \<open>-1\<close>. From then on an
  opening brace at top level only brings the counter back to 0 without starting a
  buffer: in the second text the complete object with its \<open>name\<close> and \<open>ability\<close> keys
  is never handed to the parser, only its inner \<open>{}\<close> is.
\<close>

theorem depth_negative_after_stray_brace:
  \<open>depth_after ''}'' = - 1 \<and>
   candidate_spans ''}{"name":"a","ability":{}}'' = [''{}''] \<and>
   extract_json_objects ev ''}{"name":"a","ability":{}}'' = attempt_parse ev ''{}''\<close>
proof -
  have spans: \<open>candidate_spans ''}{"name":"a","ability":{}}'' = [''{}'']\<close>
    by (simp add: candidate_spans_def pure_scan_def ext_init_def pure_step_eq)
  have \<open>depth_after ''}'' = - 1\<close>
    by (simp add: depth_after_def pure_scan_def ext_init_def pure_step_eq)
  moreover have \<open>extract_json_objects ev ''}{"name":"a","ability":{}}'' = attempt_parse ev ''{}''\<close>
    unfolding extract_eq_collect spans by (simp add: collect_def split: sum.splits)
  ultimately show ?thesis using spans by simp
qed

text \<open>
  Claim C9. Every element of the list returned by \<open>extract_json_objects\<close> is the value
  the parser returned for one of the buffers and has the keys \<open>name\<close> and \<open>ability\<close>.
  The list is built position by position: going through the indices of the text in
  increasing order, the buffer completed at an index (if any) contributes the object
  parsed from it; an index completes a buffer only where the text has a closing brace,
  and then exactly one. So the elements are in the order of their closing braces. The
  function returns a list whenever no exception leaves the \<open>try\<close> statement for a buffer.
\<close>

theorem extract_elements_and_order:
  "(\<forall>objs. extract_json_objects ev text = Inr objs \<longrightarrow>
       (\<forall>obj \<in> set objs.
           has_key ''name'' obj \<and> has_key ''ability'' obj \<and>
           (\<exists>buf \<in> set (candidate_spans text). json_loads ev buf = Inr obj))
       \<and> objs = concat (map (\<lambda>i. concat (map (accepted ev) (completed_at text i)))
                            [0..<length text]))
   \<and> ((\<forall>buf \<in> set (candidate_spans text). \<forall>e. attempt_parse ev buf \<noteq> Inl e) \<longrightarrow>
        (\<exists>objs. extract_json_objects ev text = Inr objs))
   \<and> (\<forall>i < length text. completed_at text i \<noteq> [] \<longrightarrow>
         text ! i = CHR ''}'' \<and> length (completed_at text i) = 1)"
proof (intro conjI allI impI)
  fix objs assume r: "extract_json_objects ev text = Inr objs"
  then have objs: "objs = concat (map (accepted ev) (candidate_spans text))"
    by (rule extract_Inr_accepted)
  show "\<forall>obj \<in> set objs.
           has_key ''name'' obj \<and> has_key ''ability'' obj \<and>
           (\<exists>buf \<in> set (candidate_spans text). json_loads ev buf = Inr obj)"
    using accepted_elem [of _ ev] unfolding objs
    by (fastforce simp add: loose_gate_def)
  have "objs = concat (map (accepted ev) (concat (map (completed_at text) [0..<length text])))"
    using candidate_spans_positions [of "text"] objs by simp
  then show "objs = concat (map (\<lambda>i. concat (map (accepted ev) (completed_at text i)))
                            [0..<length text])"
    by (simp add: concat_map_concat o_def)
next
  assume "\<forall>buf \<in> set (candidate_spans text). \<forall>e. attempt_parse ev buf \<noteq> Inl e"
  then show "\<exists>objs. extract_json_objects ev text = Inr objs"
    by (simp add: extract_eq_collect collect_total)
next
  fix i assume "i < length text" "completed_at text i \<noteq> []"
  then show "text ! i = CHR ''}''" "length (completed_at text i) = 1"
    by (auto simp add: completed_at_eq Let_def split: if_splits)
qed

theorem extract_elements_and_order_witness:
  "extract_json_objects example_env ''{a}{b}'' =
        Inr [[(''name'', JStr ''a''), (''ability'', JObj [])],
             [(''name'', JStr ''b''), (''ability'', JObj [])]]
   \<and> [(''name'', JStr ''b''), (''ability'', JObj [])]
        \<in> set [[(''name'', JStr ''a''), (''ability'', JObj [])],
                [(''name'', JStr ''b''), (''ability'', JObj [])]]
   \<and> has_key ''name'' [(''name'', JStr ''b''), (''ability'', JObj [])]
   \<and> has_key ''ability'' [(''name'', JStr ''b''), (''ability'', JObj [])]
   \<and> (\<exists>buf \<in> set (candidate_spans ''{a}{b}'').
          json_loads example_env buf = Inr [(''name'', JStr ''b''), (''ability'', JObj [])])
   \<and> candidate_spans ''{a}{b}'' = [''{a}'', ''{b}'']
   \<and> attempt_parse example_env ''{a}'' = Inr [[(''name'', JStr ''a''), (''ability'', JObj [])]]
   \<and> attempt_parse example_env ''{b}'' = Inr [[(''name'', JStr ''b''), (''ability'', JObj [])]]
   \<and> (2::nat) < length ''{a}{b}'' \<and> completed_at ''{a}{b}'' 2 = [''{a}'']
   \<and> ''{a}{b}'' ! 2 = CHR ''}'' \<and> length (completed_at ''{a}{b}'' 2) = 1"
proof -
  let ?a = "[(''name'', JStr ''a''), (''ability'', JObj [])]"
  let ?b = "[(''name'', JStr ''b''), (''ability'', JObj [])]"
  have spans: "candidate_spans ''{a}{b}'' = [''{a}'', ''{b}'']"
    by (simp add: candidate_spans_def pure_scan_def ext_init_def pure_step_eq)
  have noexc: "\<forall>buf \<in> set (candidate_spans ''{a}{b}''). \<forall>e. attempt_parse example_env buf \<noteq> Inl e"
    by (simp add: spans attempt_parse_def example_env_def loose_gate_def has_key_def)
  have c2: "completed_at ''{a}{b}'' 2 = [''{a}'']"
    by (simp add: completed_at_def candidate_spans_def pure_scan_def ext_init_def pure_step_eq
          numeral_2_eq_2 numeral_3_eq_3)
  note all = extract_elements_and_order [of example_env "''{a}{b}''"]
  from all noexc obtain objs where r: "extract_json_objects example_env ''{a}{b}'' = Inr objs"
    by blast
  with all have "objs = concat (map (\<lambda>i. concat (map (accepted example_env) (completed_at ''{a}{b}'' i)))
                            [0..<length ''{a}{b}''])"
    by blast
  also have "\<dots> = concat (map (accepted example_env) (candidate_spans ''{a}{b}''))"
    using candidate_spans_positions [of "''{a}{b}''"] by (simp add: concat_map_concat o_def)
  also have "\<dots> = [?a, ?b]"
    by (simp add: spans accepted_def example_env_def loose_gate_def has_key_def)
  finally have objs: "objs = [?a, ?b]" .
  with r have ex: "extract_json_objects example_env ''{a}{b}'' = Inr [?a, ?b]" by simp
  have mem: "?b \<in> set [?a, ?b]" by simp
  from all ex mem have props: "has_key ''name'' ?b \<and> has_key ''ability'' ?b \<and>
      (\<exists>buf \<in> set (candidate_spans ''{a}{b}''). json_loads example_env buf = Inr ?b)"
    by blast
  from all c2 have pos: "''{a}{b}'' ! 2 = CHR ''}'' \<and> length (completed_at ''{a}{b}'' 2) = 1"
    by simp
  have len: "(2::nat) < length ''{a}{b}''" by simp
  have att: "attempt_parse example_env ''{a}'' = Inr [?a]" "attempt_parse example_env ''{b}'' = Inr [?b]"
    by (simp_all add: attempt_parse_def example_env_def loose_gate_def has_key_def)
  from ex mem props spans att len c2 pos show ?thesis by blast
qed

subsection \<open>A buffer the parser rejects, and deeply nested buffers\<close>

lemma concat_map_unless:
  "concat (map (\<lambda>b. if b = bad then [] else [b]) xs) = filter (\<lambda>b. b \<noteq> bad) xs"
  by (induction xs) simp_all

lemma for_each_collect_filter:
  assumes "att bad = Inr []"
  shows "for_each (\<lambda>acc buf. case att buf of Inl e \<Rightarrow> Inl e | Inr new \<Rightarrow> Inr (acc @ new)) acc xs
       = for_each (\<lambda>acc buf. case att buf of Inl e \<Rightarrow> Inl e | Inr new \<Rightarrow> Inr (acc @ new)) acc
           (filter (\<lambda>b. b \<noteq> bad) xs)"
  using assms by (induction xs arbitrary: acc) (simp_all split: sum.splits)

lemma collect_filter:
  "att bad = Inr [] \<Longrightarrow> collect att xs = collect att (filter (\<lambda>b. b \<noteq> bad) xs)"
  unfolding collect_def by (rule for_each_collect_filter)

lemma malformed_candidate_skipped:
  assumes "depth_after pre = 0"
      and "candidate_spans bad = [bad]"
      and "json_loads ev bad = Inl JSONDecodeError"
      and "print_failed ev bad = None"
  shows "extract_json_objects ev (pre @ bad @ post) = extract_json_objects ev (pre @ post)"
proof -
  have att: "attempt_parse ev bad = Inr []"
    using assms(3,4) by (simp add: attempt_parse_def on_decode_error_def)
  let ?a = "\<lambda>b. if b = bad then [] else [b]"
  have "objects (pure_scan ?a (pre @ bad @ post)) = objects (pure_scan ?a (pre @ post))"
    using assms(1,2) by (rule pure_skip) simp
  then have "filter (\<lambda>b. b \<noteq> bad) (candidate_spans (pre @ bad @ post))
           = filter (\<lambda>b. b \<noteq> bad) (candidate_spans (pre @ post))"
    by (simp only: pure_objects_via_spans concat_map_unless)
  then show ?thesis
    using collect_filter [where att = "attempt_parse ev" and bad = bad
                            and xs = "candidate_spans (pre @ bad @ post)", OF att]
      collect_filter [where att = "attempt_parse ev" and bad = bad
                        and xs = "candidate_spans (pre @ post)", OF att]
    by (simp add: extract_eq_collect)
qed

lemma pure_no_brace:
  "list_all no_brace xs \<Longrightarrow>
     foldl (pure_step a) s xs = (if in_object s then s\<lparr>current_obj := current_obj s @ xs\<rparr> else s)"
  by (induction xs arbitrary: s) (simp_all add: pure_step_eq no_brace_def)

lemma single_span:
  assumes "list_all no_brace body" and "depth s = 0" and "\<not> in_object s"
  shows "foldl (pure_step a) s (CHR ''{'' # body @ ''}'')
           = s\<lparr>current_obj := CHR ''{'' # body @ ''}'',
               objects := objects s @ a (CHR ''{'' # body @ ''}'')\<rparr>"
proof -
  let ?s1 = "pure_step a s (CHR ''{'')"
  have s1: "?s1 = s\<lparr>in_object := True, current_obj := ''{'', depth := 1\<rparr>"
    using assms(2,3) by (simp add: pure_step_eq)
  have "foldl (pure_step a) ?s1 body = ?s1\<lparr>current_obj := current_obj ?s1 @ body\<rparr>"
    using pure_no_brace [OF assms(1), of a ?s1] by (simp add: s1)
  then have "foldl (pure_step a) s (CHR ''{'' # body @ ''}'')
           = pure_step a (?s1\<lparr>current_obj := current_obj ?s1 @ body\<rparr>) (CHR ''}'')"
    by simp
  also have "\<dots> = s\<lparr>current_obj := CHR ''{'' # body @ ''}'',
               objects := objects s @ a (CHR ''{'' # body @ ''}'')\<rparr>"
    using assms(2,3) by (simp add: s1 pure_step_eq)
  finally show ?thesis .
qed

lemma no_brace_replicate: "no_brace x \<Longrightarrow> list_all no_brace (replicate n x)"
  by (induction n) simp_all

lemma spans_after_single_span:
  assumes "list_all no_brace body"
  shows "candidate_spans ((CHR ''{'' # body @ ''}'') @ rest)
           = (CHR ''{'' # body @ ''}'') #
             objects (foldl (pure_step (\<lambda>buf. [buf]))
                        (ext_init\<lparr>current_obj := CHR ''{'' # body @ ''}''\<rparr>) rest)"
proof -
  let ?sp = "CHR ''{'' # body @ ''}''"
  have st: "foldl (pure_step (\<lambda>buf. [buf])) ext_init ?sp
          = ext_init\<lparr>current_obj := ?sp, objects := [?sp]\<rparr>"
    using single_span [OF assms, of ext_init "\<lambda>buf. [buf]"] by (simp add: ext_init_def)
  have "ext_sim [?sp] (\<lambda>buf. [buf]) (ext_init\<lparr>current_obj := ?sp, objects := [?sp]\<rparr>)
          (ext_init\<lparr>current_obj := ?sp\<rparr>)"
    by (simp add: ext_sim_def ext_init_def ext_inv_def)
  from ext_sim_foldl [OF this, of rest]
  have "objects (foldl (pure_step (\<lambda>buf. [buf])) (ext_init\<lparr>current_obj := ?sp, objects := [?sp]\<rparr>) rest)
      = ?sp # objects (foldl (pure_step (\<lambda>buf. [buf])) (ext_init\<lparr>current_obj := ?sp\<rparr>) rest)"
    by (simp add: ext_sim_def)
  then show ?thesis
    unfolding candidate_spans_def pure_scan_def foldl_append st .
qed

lemma deep_malformed_body:
  \<open>list_all no_brace (''"a":'' @ replicate 100000 (CHR ''[''))\<close>
  unfolding list_all_append
  by (rule conjI) (simp add: no_brace_def, rule no_brace_replicate, simp add: no_brace_def)


lemma object_b_spans_from:
  "objects (foldl (pure_step (\<lambda>buf. [buf])) (ext_init\<lparr>current_obj := cur\<rparr>) object_b) = [object_b]"
  by (simp add: object_b_def ext_init_def pure_step_eq)

lemma deep_malformed_spans:
  "candidate_spans (deep_malformed @ object_b) = [deep_malformed, object_b]"
  unfolding deep_malformed_def
  by (simp only: spans_after_single_span [OF deep_malformed_body] object_b_spans_from)


lemma object_b_not_deep: "object_b \<noteq> deep_malformed \<and> object_b \<noteq> deep_object"
proof -
  have l1: "length object_b < length deep_malformed"
    by (simp add: object_b_def deep_malformed_def)
  have l2: "length object_b < length deep_object"
    by (simp add: object_b_def deep_object_def)
  have "object_b \<noteq> deep_malformed"
  proof
    assume "object_b = deep_malformed"
    with l1 show False by simp
  qed
  moreover have "object_b \<noteq> deep_object"
  proof
    assume "object_b = deep_object"
    with l2 show False by simp
  qed
  ultimately show ?thesis by (rule conjI)
qed

lemma deep_env_loads:
  "json_loads deep_env deep_malformed = Inl RecursionError"
  "json_loads deep_env deep_object = Inl RecursionError"
  "json_loads deep_env object_b = Inr [(''name'', JStr ''b''), (''ability'', JObj [])]"
  by (simp_all add: deep_env_def object_b_not_deep)

lemma deep_env_prints:
  "print_extracted deep_env obj = None" "print_failed deep_env buf = None"
  by (simp_all add: deep_env_def)

lemma object_b_alone: "candidate_spans object_b = [object_b]"
  by (simp add: candidate_spans_def pure_scan_def object_b_def ext_init_def pure_step_eq)

text \<open>
  Claim C6. A candidate span on which \<open>json.loads\<close> raises \<open>JSONDecodeError\<close> is skipped,
  and the objects recovered are those recovered without it (lemma
  \<open>malformed_candidate_skipped\<close>). But the \<open>except\<close> clause names \<open>JSONDecodeError\<close> only,
  where the fallback loop of the analysis tool catches everything: an exception of another
  class raised while a malformed candidate is handled leaves the loop. The malformed
  buffer \<open>deep_malformed\<close> is one candidate; \<open>json.loads\<close> raises \<open>RecursionError\<close> on it;
  \<open>extract_json_objects\<close> then raises instead of returning the object that follows, which
  it returns when the malformed candidate is absent.
\<close>

theorem deep_candidate_escapes:
  "candidate_spans (deep_malformed @ object_b) = [deep_malformed, object_b] \<and>
   json_loads deep_env deep_malformed = Inl RecursionError \<and>
   extract_json_objects deep_env (deep_malformed @ object_b) = Inl RecursionError \<and>
   extract_json_objects deep_env object_b = Inr [[(''name'', JStr ''b''), (''ability'', JObj [])]]"
  by (simp add: extract_eq_collect deep_malformed_spans object_b_alone collect_def
        attempt_parse_def deep_env_loads deep_env_prints loose_gate_def has_key_def)




text \<open>
  The same difference shows where a \<open>print\<close> of the extractor raises: the object was
  appended, the exception is not a \<open>JSONDecodeError\<close>, and the function raises; the
  fallback prints nothing.
\<close>

lemma print_error_escapes:
  "extract_json_objects (example_env\<lparr>print_extracted := (\<lambda>obj. Some UnicodeEncodeError)\<rparr>) ''{a}''
     = Inl UnicodeEncodeError \<and>
   fallback_extract (example_env\<lparr>print_extracted := (\<lambda>obj. Some UnicodeEncodeError)\<rparr>) ''{a}''
     = [[(''name'', JStr ''a''), (''ability'', JObj [])]]"
  by (simp add: extract_json_objects_def ext_scan_def ext_init_def ext_step_def attempt_parse_def
        example_env_def loose_gate_def has_key_def fallback_extract_def fb_init_def fb_step_def
        fb_attempt_def)

section \<open>Properties of the statistics engine\<close>

subsection \<open>Shannon entropy\<close>

lemma entropy_step_eq:
  "0 < tot \<Longrightarrow> entropy_step tot e c = Inr (e - entropy_term tot c)"
  by (auto simp add: entropy_step_def entropy_term_def py_div_def py_log2_def divide_le_0_iff)

lemma for_each_entropy:
  "0 < tot \<Longrightarrow>
     for_each (entropy_step tot) e vs = Inr (e - sum_list (map (entropy_term tot) vs))"
  by (induction vs arbitrary: e) (simp_all add: entropy_step_eq)

lemma shannon_entropy_eq: "shannon_entropy counts = Inr (entropy_value counts)"
proof (cases "sum_list (counter_values counts) = 0")
  case True
  have "shannon_entropy counts = Inr 0"
    unfolding shannon_entropy_def Let_def using True by (rule if_P)
  moreover have "entropy_value counts = 0"
    unfolding entropy_value_def using True by (rule if_P)
  ultimately show ?thesis by (simp only:)
next
  case False
  let ?T = "sum_list (counter_values counts)"
  let ?S = "sum_list (map (entropy_term ?T) (counter_values counts))"
  from False have pos: "0 < ?T" by (simp only: neq0_conv)
  have "shannon_entropy counts = for_each (entropy_step ?T) 0 (counter_values counts)"
    unfolding shannon_entropy_def Let_def using False by (rule if_not_P)
  also have "\<dots> = Inr (0 - ?S)"
    using pos by (rule for_each_entropy)
  finally have "shannon_entropy counts = Inr (- ?S)"
    by (simp only: diff_0)
  moreover have "entropy_value counts = - ?S"
    unfolding entropy_value_def using False by (rule if_not_P)
  ultimately show ?thesis by (simp only:)
qed

lemma count_of_distinct:
  "distinct (map fst counts) \<Longrightarrow> (k, c) \<in> set counts \<Longrightarrow> count_of counts k = c"
  by (simp add: count_of_def)

lemma sum_keys_distinct:
  assumes "distinct (map fst counts)"
  shows "(\<Sum>k\<in>set (map fst counts). f (count_of counts k)) = sum_list (map f (counter_values counts))"
proof -
  have "(\<Sum>k\<in>set (map fst counts). f (count_of counts k))
          = sum_list (map (\<lambda>k. f (count_of counts k)) (map fst counts))"
    using assms by (rule sum_list_distinct_conv_sum_set [symmetric])
  also have "\<dots> = sum_list (map (\<lambda>kc. f (count_of counts (fst kc))) counts)"
    by (simp add: o_def)
  also have "\<dots> = sum_list (map (\<lambda>kc. f (snd kc)) counts)"
  proof (rule arg_cong [where f = sum_list], rule map_cong)
    fix kc assume "kc \<in> set counts"
    then show "f (count_of counts (fst kc)) = f (snd kc)"
      using count_of_distinct [OF assms, of "fst kc" "snd kc"] by simp
  qed simp
  finally show ?thesis by (simp add: counter_values_def o_def)
qed

lemma entropy_value_spec:
  assumes "distinct (map fst counts)"
  shows "entropy_value counts = entropy_spec counts"
proof -
  let ?keys = "set (map fst counts)"
  let ?T = "\<Sum>k\<in>?keys. count_of counts k"
  have T: "?T = sum_list (counter_values counts)"
    using sum_keys_distinct [OF assms, of "\<lambda>c. c"] by simp
  have "(\<Sum>k\<in>{k \<in> ?keys. 0 < count_of counts k}.
            (real (count_of counts k) / real ?T) * log 2 (real (count_of counts k) / real ?T))
        = (\<Sum>k\<in>?keys. entropy_term ?T (count_of counts k))"
    by (simp add: entropy_term_def sum.inter_filter [symmetric] cong: sum.cong)
  also have "\<dots> = sum_list (map (entropy_term ?T) (counter_values counts))"
    by (rule sum_keys_distinct [OF assms])
  finally show ?thesis
    unfolding entropy_spec_def Let_def entropy_value_def T [symmetric] by simp
qed

text \<open>
  Claim C2. For a counter (a dict, so its keys are distinct; its counts are tallies, so
  natural numbers), \<open>shannon_entropy\<close> returns
  the value of the specification's formula: minus the sum of \<open>(c\<^sub>k/T) * log2 (c\<^sub>k/T)\<close> over
  exactly the keys with a positive count, \<open>T\<close> being the sum of all counts; when \<open>T\<close> is 0
  it returns 0. It raises nothing: the divisor \<open>T\<close> is not zero where the loop divides,
  and the argument of \<open>log2\<close> is positive.
\<close>

theorem shannon_entropy_formula:
  "distinct (map fst counts) \<Longrightarrow>
     shannon_entropy counts = Inr (entropy_spec counts) \<and>
     ((\<Sum>k\<in>set (map fst counts). count_of counts k) = 0 \<longrightarrow> shannon_entropy counts = Inr 0)"
  by (simp add: shannon_entropy_eq entropy_value_spec entropy_spec_def Let_def)

lemma log2_half: "log 2 (1 / 2) = - 1"
  by (simp add: log_divide)

theorem shannon_entropy_formula_witness:
  "distinct (map fst [(''A'', 10::nat), (''B'', 10)]) \<and>
   shannon_entropy [(''A'', 10), (''B'', 10)] = Inr (entropy_spec [(''A'', 10), (''B'', 10)]) \<and>
   entropy_spec [(''A'', 10::nat), (''B'', 10)] = 1 \<and>
   distinct (map fst [(''A'', 0::nat)]) \<and>
   (\<Sum>k\<in>set (map fst [(''A'', 0::nat)]). count_of [(''A'', 0)] k) = 0 \<and>
   shannon_entropy [(''A'', 0)] = Inr 0"
proof -
  have d1: "distinct (map fst [(''A'', 10::nat), (''B'', 10)])" by simp
  have d2: "distinct (map fst [(''A'', 0::nat)])" by simp
  have z: "(\<Sum>k\<in>set (map fst [(''A'', 0::nat)]). count_of [(''A'', 0)] k) = 0"
    by (simp add: count_of_def)
  have v: "entropy_spec [(''A'', 10::nat), (''B'', 10)] = 1"
    unfolding entropy_value_spec [OF d1, symmetric]
    by (simp add: entropy_value_def counter_values_def entropy_term_def log2_half)
  from shannon_entropy_formula [OF d1]
  have a: "shannon_entropy [(''A'', 10), (''B'', 10)] = Inr (entropy_spec [(''A'', 10), (''B'', 10)])"
    by (rule conjunct1)
  from shannon_entropy_formula [OF d2] z
  have b: "shannon_entropy [(''A'', 0)] = Inr 0"
    by blast
  show ?thesis
    by (intro conjI) (rule d1 a v d2 z b)+
qed

subsection \<open>Counters, totality of the analyses, and the score\<close>

lemma counter_add_keys: "fst ` set (counter_add k c) = insert k (fst ` set c)"
  by (induction k c rule: counter_add.induct) auto

lemma counter_add_distinct: "distinct (map fst c) \<Longrightarrow> distinct (map fst (counter_add k c))"
proof (induction k c rule: counter_add.induct)
  case (1 k)
  show ?case by simp
next
  case (2 k k' n rest)
  then show ?case
    using counter_add_keys [of k rest] by (auto simp add: image_iff)
qed

lemma counter_add_nonempty: "counter_add k c \<noteq> []"
  by (induction k c rule: counter_add.induct) simp_all

lemma counter_fold_keys:
  "fst ` set (foldl (\<lambda>c k. counter_add k c) c0 ks) = fst ` set c0 \<union> set ks"
  by (induction ks arbitrary: c0) (auto simp add: counter_add_keys)

lemma counter_fold_distinct:
  "distinct (map fst c0) \<Longrightarrow> distinct (map fst (foldl (\<lambda>c k. counter_add k c) c0 ks))"
  by (induction ks arbitrary: c0) (simp_all add: counter_add_distinct)

lemma counter_fold_nonempty:
  "c0 \<noteq> [] \<or> ks \<noteq> [] \<Longrightarrow> foldl (\<lambda>c k. counter_add k c) c0 ks \<noteq> []"
  by (induction ks arbitrary: c0) (auto simp add: counter_add_nonempty)

lemma counter_of_keys: "fst ` set (counter_of ks) = set ks"
  by (simp add: counter_of_def counter_fold_keys)

lemma counter_of_distinct: "distinct (map fst (counter_of ks))"
  by (simp add: counter_of_def counter_fold_distinct)

lemma counter_of_length: "length (counter_of ks) = card (set ks)"
proof -
  have "length (counter_of ks) = length (map fst (counter_of ks))" by simp
  also have "\<dots> = card (set (map fst (counter_of ks)))"
    using counter_of_distinct [of ks] by (rule distinct_card [symmetric])
  finally show ?thesis by (simp add: counter_of_keys)
qed

lemma counter_of_empty_iff: "counter_of ks = [] \<longleftrightarrow> ks = []"
  using counter_fold_nonempty [of "[]" ks] by (auto simp add: counter_of_def)

lemma element_combos_eq: "element_combos data = counter_of (map combo_key data)"
  by (simp add: element_combos_def counter_of_def foldl_map combo_key_def)

lemma element_combos_length:
  "length (element_combos data) = card (set (map combo_key data))"
  by (simp only: element_combos_eq counter_of_length)

lemma py_min_nonempty: "xs \<noteq> [] \<Longrightarrow> \<exists>m. py_min xs = Inr m"
  by (cases xs) (simp_all add: py_min_def)

lemma py_max_nonempty: "xs \<noteq> [] \<Longrightarrow> \<exists>m. py_max xs = Inr m"
  by (cases xs) (simp_all add: py_max_def)

lemma log2_pos_nat: "1 < n \<Longrightarrow> 0 < log 2 (real n)"
  by simp

lemma log2_nonzero_nat: "Suc 0 < n \<Longrightarrow> log 2 (real n) \<noteq> 0"
proof -
  assume "Suc 0 < n"
  then have "0 < log 2 (real n)" by simp
  then show ?thesis by (simp only: less_imp_neq [THEN not_sym] not_False_eq_True)
qed

lemma analyze_element_combinations_total:
  "\<exists>r. analyze_element_combinations data = Inr r \<and>
       el_coverage_percent r = real (length (element_combos data)) / 28 * 100 \<and>
       el_unique_combinations r = length (element_combos data) \<and>
       el_entropy r = entropy_value (element_combos data) \<and>
       el_max_entropy r = (if element_combos data \<noteq> [] then log 2 (real (length (element_combos data))) else 0) \<and>
       el_evenness_percent r = (if el_max_entropy r > 0 then el_entropy r / el_max_entropy r * 100 else 0)"
proof (cases "element_combos data = []")
  case True
  then show ?thesis
    by (simp add: analyze_element_combinations_def Let_def py_div_def shannon_entropy_eq)
next
  case False
  then have vals: "counter_values (element_combos data) \<noteq> []"
    by (simp add: counter_values_def)
  from py_min_nonempty [OF vals] obtain mn where mn: "py_min (counter_values (element_combos data)) = Inr mn" ..
  from py_max_nonempty [OF vals] obtain mx where mx: "py_max (counter_values (element_combos data)) = Inr mx" ..
  from False have len: "0 < length (element_combos data)" by simp
  show ?thesis
    using False len mn mx
    by (auto simp add: log2_nonzero_nat analyze_element_combinations_def Let_def py_div_def py_log2_def shannon_entropy_eq)
qed

lemma actions_entry_step_length:
  "length (snd (foldl actions_entry_step st data)) = length (snd st) + length data"
  by (induction data arbitrary: st) (simp_all add: actions_entry_step_def Let_def)

lemma analyze_actions_empty: "analyze_actions [] = Inl ZeroDivisionError"
  by (simp add: analyze_actions_def Let_def shannon_entropy_eq py_div_def)

lemma analyze_actions_total:
  assumes "data \<noteq> []"
  shows "\<exists>r. analyze_actions data = Inr r \<and>
             act_sequence_diversity_percent r =
               real (length (remdups (snd (foldl actions_entry_step ([], []) data))))
                 / real (length data) * 100"
  using assms by (simp add: analyze_actions_def Let_def shannon_entropy_eq py_div_def)

lemma complexity_lists_length:
  "length (fst (foldl (\<lambda>st entry. (fst st @ [f entry], snd st @ [g entry])) st data))
      = length (fst st) + length data \<and>
   length (snd (foldl (\<lambda>st entry. (fst st @ [f entry], snd st @ [g entry])) st data))
      = length (snd st) + length data"
  by (induction data arbitrary: st) simp_all

lemma analyze_complexity_empty: "analyze_complexity [] = Inl ZeroDivisionError"
  by (simp add: analyze_complexity_def Let_def py_div_def)

lemma analyze_complexity_total:
  assumes "data \<noteq> []"
  shows "\<exists>r. analyze_complexity data = Inr r \<and>
             cx_complexity_entropy r =
               entropy_value (counter_of (map (\<lambda>entry. fst (complexity_of_entry entry)) data))"
proof -
  let ?st = "foldl (\<lambda>st entry. (fst st @ [fst (complexity_of_entry entry)],
                                   snd st @ [snd (complexity_of_entry entry)]))
                     ([], []) data"
  have fst_eq: "\<And>st. fst (foldl (\<lambda>st entry. (fst st @ [fst (complexity_of_entry entry)],
                                   snd st @ [snd (complexity_of_entry entry)])) st data)
                = fst st @ map (\<lambda>entry. fst (complexity_of_entry entry)) data"
    by (induction data) simp_all
  have len: "length (fst ?st) = length data" "length (snd ?st) = length data"
    using complexity_lists_length [of "\<lambda>entry. fst (complexity_of_entry entry)"
        "\<lambda>entry. snd (complexity_of_entry entry)" "([], [])" data] by simp_all
  with assms have ne: "fst ?st \<noteq> []" "snd ?st \<noteq> []" by auto
  from py_min_nonempty [OF ne(1)] obtain mn where mn: "py_min (fst ?st) = Inr mn" ..
  from py_max_nonempty [OF ne(1)] obtain mx where mx: "py_max (fst ?st) = Inr mx" ..
  from py_max_nonempty [OF ne(2)] obtain md where md: "py_max (snd ?st) = Inr md" ..
  show ?thesis
    using assms len mn mx md fst_eq [of "([], [])"]
    by (simp add: analyze_complexity_def Let_def py_div_def shannon_entropy_eq)
qed

lemma analyze_status_effects_total:
  "\<exists>r. analyze_status_effects data = Inr r"
  by (simp add: analyze_status_effects_def Let_def shannon_entropy_eq)

lemma entropy_term_nonpos:
  assumes "c \<le> tot"
  shows "entropy_term tot c \<le> 0"
proof (cases "0 < c")
  case True
  with assms have p: "0 < real c / real tot" and q: "real c / real tot \<le> 1" by simp_all
  then have l: "log 2 (real c / real tot) \<le> 0" by simp
  have "(real c / real tot) * log 2 (real c / real tot) \<le> 0"
    by (rule mult_nonneg_nonpos) (use p l in simp_all)
  with True show ?thesis by (simp add: entropy_term_def)
next
  case False
  then show ?thesis by (simp add: entropy_term_def)
qed

lemma entropy_value_nonneg: "0 \<le> entropy_value counts"
proof -
  let ?vs = "counter_values counts"
  have "\<forall>c \<in> set ?vs. entropy_term (sum_list ?vs) c \<le> 0"
    using member_le_sum_list [of _ ?vs] by (auto intro: entropy_term_nonpos)
  then have "sum_list (map (entropy_term (sum_list ?vs)) ?vs) \<le> 0"
    by (intro sum_list_nonpos) auto
  then show ?thesis by (simp add: entropy_value_def)
qed

lemma log2_5_pos: "0 < log 2 (5::real)"
  by simp

lemma log2_5_nonzero: "log 2 (5::real) \<noteq> 0"
  using log2_5_pos by (simp only: less_imp_neq [THEN not_sym] not_False_eq_True)

lemma score_is_mean:
  "calculate_overall_diversity_score a =
     Inr ((el_coverage_percent (an_elements a) + el_evenness_percent (an_elements a) +
           act_sequence_diversity_percent (an_actions a) +
           min (cx_complexity_entropy (an_complexity a) / log 2 5 * 100) 100 +
           min (real (st_unique_statuses (an_status_effects a)) / 10 * 100) 100) / 5)"
  by (simp add: calculate_overall_diversity_score_def Let_def py_div_def py_log2_def log2_5_nonzero)

lemma set_combo_key: "set (combo_key entry) = set (primitives (ability entry))"
  by (simp add: combo_key_def)

lemma combo_key_sample_inj:
  assumes "combo_key (sample_entry i) = combo_key (sample_entry j)"
  shows "i = j"
proof -
  let ?r = "\<lambda>n. replicate (Suc n) (CHR ''a'')"
  from assms have "set (combo_key (sample_entry i)) = set (combo_key (sample_entry j))"
    by simp
  then have "{?r i, ''b''} = {?r j, ''b''}"
    unfolding set_combo_key by (simp add: sample_entry_def del: replicate_Suc)
  then have "?r i \<in> {?r j, ''b''}" by blast
  moreover have "?r i \<noteq> ''b''" by simp
  ultimately have "?r i = ?r j" by blast
  then have "length (?r i) = length (?r j)" by (rule arg_cong)
  then show ?thesis by simp
qed

lemma sample_data_distinct_keys: "distinct (map combo_key (sample_data n))"
proof -
  have "inj_on (\<lambda>i. combo_key (sample_entry i)) (set [0..<n])"
    by (rule inj_onI) (rule combo_key_sample_inj)
  then have "distinct (map (\<lambda>i. combo_key (sample_entry i)) [0..<n])"
    by (simp add: distinct_map)
  then show ?thesis by (simp add: sample_data_def o_def)
qed

lemma sample_data_combos: "length (element_combos (sample_data n)) = n"
proof -
  have "length (element_combos (sample_data n)) = card (set (map combo_key (sample_data n)))"
    by (rule element_combos_length)
  also have "\<dots> = length (map combo_key (sample_data n))"
    using sample_data_distinct_keys by (rule distinct_card)
  finally show ?thesis by (simp add: sample_data_def)
qed

text \<open>
  Claim C3. The coverage is \<open>100 * K / 28\<close>, \<open>K\<close> being the number of distinct sorted
  primitive lists (lemmas \<open>analyze_element_combinations_total\<close> and
  \<open>element_combos_length\<close>), but it is not bounded by 100: nothing limits \<open>K\<close> to 28 and
  the value is not clamped, although the scorer's comment reads \<open>Element coverage (0-100)\<close> and
  the two other normalised scores are clamped with \<open>min(..., 100)\<close>. For 29 abilities with
  pairwise different pairs of primitives the coverage is \<open>29 / 28 * 100\<close>.
\<close>

theorem coverage_exceeds_100:
  "\<exists>r. analyze_element_combinations (sample_data 29) = Inr r \<and>
       el_unique_combinations r = 29 \<and>
       el_coverage_percent r = 29 / 28 * 100 \<and>
       100 < el_coverage_percent r"
proof -
  from analyze_element_combinations_total [of "sample_data 29"]
  obtain r where "analyze_element_combinations (sample_data 29) = Inr r"
    and "el_coverage_percent r = real (length (element_combos (sample_data 29))) / 28 * 100"
    and "el_unique_combinations r = length (element_combos (sample_data 29))"
    by blast
  then show ?thesis by (simp add: sample_data_combos)
qed

lemma overall_score_lower_bound:
  assumes "data \<noteq> []"
  shows "\<exists>x. overall_score data = Inr x \<and>
             real (length (element_combos data)) / 28 * 100 / 5 \<le> x"
proof -
  from analyze_element_combinations_total [of data]
  obtain r1 where r1: "analyze_element_combinations data = Inr r1"
    and cov: "el_coverage_percent r1 = real (length (element_combos data)) / 28 * 100"
    and ent: "el_entropy r1 = entropy_value (element_combos data)"
    and ev: "el_evenness_percent r1 = (if el_max_entropy r1 > 0 then el_entropy r1 / el_max_entropy r1 * 100 else 0)"
    by blast
  from analyze_actions_total [OF assms]
  obtain r2 where r2: "analyze_actions data = Inr r2"
    and sd: "act_sequence_diversity_percent r2 =
               real (length (remdups (snd (foldl actions_entry_step ([], []) data))))
                 / real (length data) * 100"
    by blast
  from analyze_status_effects_total [of data]
  obtain r3 where r3: "analyze_status_effects data = Inr r3" by blast
  from analyze_complexity_total [OF assms]
  obtain r4 where r4: "analyze_complexity data = Inr r4"
    and ce: "cx_complexity_entropy r4 =
               entropy_value (counter_of (map (\<lambda>entry. fst (complexity_of_entry entry)) data))"
    by blast
  have ev0: "0 \<le> el_evenness_percent r1"
    using entropy_value_nonneg [of "element_combos data"] by (simp add: ev ent)
  have sd0: "0 \<le> act_sequence_diversity_percent r2"
    by (simp add: sd)
  have ce0: "0 \<le> min (cx_complexity_entropy r4 / log 2 5 * 100) 100"
    using entropy_value_nonneg [of "counter_of (map (\<lambda>entry. fst (complexity_of_entry entry)) data)"]
      log2_5_pos by (simp add: ce)
  have st0: "0 \<le> min (real (st_unique_statuses r3) / 10 * 100) (100::real)"
    by simp
  let ?x = "(el_coverage_percent r1 + el_evenness_percent r1 +
           act_sequence_diversity_percent r2 +
           min (cx_complexity_entropy r4 / log 2 5 * 100) 100 +
           min (real (st_unique_statuses r3) / 10 * 100) 100) / 5"
  have "overall_score data = Inr ?x"
    by (simp add: overall_score_def r1 r2 r3 r4 score_is_mean)
  moreover have "real (length (element_combos data)) / 28 * 100 / 5 \<le> ?x"
    using ev0 sd0 ce0 st0 by (simp add: cov)
  ultimately show ?thesis by blast
qed

lemma sample_data_nonempty: "0 < n \<Longrightarrow> sample_data n \<noteq> []"
  by (simp add: sample_data_def)

text \<open>
  Claim C4. The score is the mean of the five sub-scores (lemma \<open>score_is_mean\<close>), but it
  is not bounded by 100, against the docstring \<open>Calculate overall diversity score (0-100)\<close>:
  the first sub-score, the element coverage, is unbounded (claim C3) and the other four are
  not negative. For 141 abilities with pairwise different pairs of primitives the score
  computed by \<open>generate_report\<close> exceeds 100.
\<close>

theorem overall_score_exceeds_100:
  "\<exists>x. overall_score (sample_data 141) = Inr x \<and> 100 < x"
proof -
  have "sample_data 141 \<noteq> []" by (rule sample_data_nonempty) simp
  from overall_score_lower_bound [OF this]
  obtain x where "overall_score (sample_data 141) = Inr x"
    and "real (length (element_combos (sample_data 141))) / 28 * 100 / 5 \<le> x"
    by blast
  then show ?thesis by (auto simp add: sample_data_combos)
qed

text \<open>
  Claim C10. For a non-empty collection \<open>analyze_actions\<close> and \<open>analyze_complexity\<close>
  return a result, and \<open>analyze_element_combinations\<close> returns one for every collection:
  in the model every division with a zero divisor is \<open>ZeroDivisionError\<close>, so a result
  means that no divisor was zero. On the empty collection \<open>analyze_actions\<close> and
  \<open>analyze_complexity\<close> raise \<open>ZeroDivisionError\<close>.
\<close>

theorem analysis_division_safety:
  "(data \<noteq> [] \<longrightarrow> (\<exists>r. analyze_actions data = Inr r) \<and> (\<exists>r. analyze_complexity data = Inr r))
   \<and> (\<exists>r. analyze_element_combinations data = Inr r)
   \<and> analyze_actions [] = Inl ZeroDivisionError
   \<and> analyze_complexity [] = Inl ZeroDivisionError"
  using analyze_actions_total [of data] analyze_complexity_total [of data]
    analyze_element_combinations_total [of data]
  by (auto simp add: analyze_actions_empty analyze_complexity_empty)

theorem analysis_division_safety_witness:
  "[melee_entry] \<noteq> [] \<and> (\<exists>r. analyze_actions [melee_entry] = Inr r) \<and>
   (\<exists>r. analyze_complexity [melee_entry] = Inr r)"
  using analysis_division_safety [of "[melee_entry]"] by simp

subsection \<open>The melee analysis\<close>

lemma foldl_concat_nested: "foldl (\<lambda>a xs. foldl f a xs) a xss = foldl f a (concat xss)"
  by (induction xss arbitrary: a) simp_all

lemma melee_tally_flat: "melee_tally data = foldl melee_script_step ([], [], []) (top_level_nodes data)"
proof -
  have inner: "\<And>st entry. foldl (\<lambda>st eff. foldl melee_script_step st (script eff)) st (effects (ability entry))
                  = foldl melee_script_step st (concat (map script (effects (ability entry))))"
    by (simp add: foldl_concat_nested [symmetric] foldl_map)
  show ?thesis
    unfolding melee_tally_def top_level_nodes_def inner
    by (simp add: foldl_concat_nested [symmetric] foldl_map)
qed

lemma melee_fold:
  "foldl melee_script_step st nodes =
     (foldl (\<lambda>c k. counter_add k c) (fst st) (map melee_shape (filter is_melee nodes)),
      foldl (\<lambda>c k. counter_add k c) (fst (snd st)) (map melee_movement (filter is_melee nodes)),
      foldl (\<lambda>c k. counter_add k c) (snd (snd st))
            (map (\<lambda>n. (melee_shape n, melee_movement n)) (filter is_melee nodes)))"
  by (induction nodes arbitrary: st)
     (simp_all add: melee_script_step_def is_melee_def melee_shape_def melee_movement_def Let_def)

lemma melee_tally_eq:
  "melee_tally data =
     (counter_of (map melee_shape (melee_nodes data)),
      counter_of (map melee_movement (melee_nodes data)),
      counter_of (map (\<lambda>n. (melee_shape n, melee_movement n)) (melee_nodes data)))"
  by (simp add: melee_tally_flat melee_fold counter_of_def melee_nodes_def)

lemma analyze_melee_attacks_eq:
  "analyze_melee_attacks data =
     (if melee_nodes data = [] then Inr None
      else Inr (Some \<lparr>ml_shapes = counter_of (map melee_shape (melee_nodes data)),
                      ml_movements = counter_of (map melee_movement (melee_nodes data)),
                      ml_shape_movement_combos =
                        counter_of (map (\<lambda>n. (melee_shape n, melee_movement n)) (melee_nodes data)),
                      ml_shape_entropy =
                        entropy_value (counter_of (map melee_shape (melee_nodes data))),
                      ml_movement_entropy =
                        entropy_value (counter_of (map melee_movement (melee_nodes data)))\<rparr>))"
  by (simp add: analyze_melee_attacks_def Let_def melee_tally_eq counter_of_empty_iff
        shannon_entropy_eq)

text \<open>
  Claim C7, as amended. \<open>analyze_melee_attacks\<close> returns \<open>None\<close>, and no error, exactly
  when no top-level script node (a node of some effect's \<open>script\<close> list) has the action
  \<open>spawn_melee\<close>; otherwise it returns the tallies of \<open>args.shape\<close> (default
  \<open>unknown\<close>), of \<open>args.movement\<close> (default \<open>stationary\<close>) and of their pairs over the
  top-level \<open>spawn_melee\<close> nodes. Nodes inside \<open>on_hit\<close> lists are not examined.
\<close>

theorem melee_none_iff_no_top_level:
  "(analyze_melee_attacks data = Inr None \<longleftrightarrow> melee_nodes data = [])
   \<and> (melee_nodes data \<noteq> [] \<longrightarrow>
        (\<exists>r. analyze_melee_attacks data = Inr (Some r) \<and>
             ml_shapes r = counter_of (map melee_shape (melee_nodes data)) \<and>
             ml_movements r = counter_of (map melee_movement (melee_nodes data)) \<and>
             ml_shape_movement_combos r =
               counter_of (map (\<lambda>n. (melee_shape n, melee_movement n)) (melee_nodes data))))"
  by (simp add: analyze_melee_attacks_eq)

text \<open>
  Claim C7 as stated fails: the function does not walk the \<open>on_hit\<close> lists. For an ability
  whose only \<open>spawn_melee\<close> node is the \<open>on_hit\<close> child of a projectile it returns
  \<open>None\<close> although such a node exists in the dataset.
\<close>

theorem melee_nested_counterexample:
  "analyze_melee_attacks [nested_melee_entry] = Inr None \<and>
   has_action_anywhere ''spawn_melee'' [nested_melee_entry]"
  by (simp add: analyze_melee_attacks_eq melee_nodes_def top_level_nodes_def nested_melee_entry_def
        is_melee_def has_action_anywhere_def)

theorem melee_none_iff_no_top_level_witness:
  "melee_nodes [melee_entry] \<noteq> [] \<and>
   (\<exists>r. analyze_melee_attacks [melee_entry] = Inr (Some r) \<and>
        ml_shapes r = [(''arc'', 1), (''unknown'', 1)] \<and>
        ml_movements r = [(''stationary'', 2)] \<and>
        ml_shape_movement_combos r = [((''arc'', ''stationary''), 1), ((''unknown'', ''stationary''), 1)]) \<and>
   melee_nodes [nested_melee_entry] = [] \<and>
   analyze_melee_attacks [nested_melee_entry] = Inr None"
proof -
  have ne: "melee_nodes [melee_entry] \<noteq> []"
    by (simp add: melee_nodes_def top_level_nodes_def melee_entry_def is_melee_def)
  have e: "melee_nodes [nested_melee_entry] = []"
    by (simp add: melee_nodes_def top_level_nodes_def nested_melee_entry_def is_melee_def)
  have vals: "counter_of (map melee_shape (melee_nodes [melee_entry])) = [(''arc'', 1), (''unknown'', 1)]"
    "counter_of (map melee_movement (melee_nodes [melee_entry])) = [(''stationary'', 2)]"
    "counter_of (map (\<lambda>n. (melee_shape n, melee_movement n)) (melee_nodes [melee_entry]))
       = [((''arc'', ''stationary''), 1), ((''unknown'', ''stationary''), 1)]"
    by (simp_all add: melee_nodes_def top_level_nodes_def melee_entry_def is_melee_def
          counter_of_def melee_shape_def melee_movement_def args_or_empty_def get_or_def)
  from melee_none_iff_no_top_level [of "[melee_entry]"] ne
  have "\<exists>r. analyze_melee_attacks [melee_entry] = Inr (Some r) \<and>
             ml_shapes r = counter_of (map melee_shape (melee_nodes [melee_entry])) \<and>
             ml_movements r = counter_of (map melee_movement (melee_nodes [melee_entry])) \<and>
             ml_shape_movement_combos r =
               counter_of (map (\<lambda>n. (melee_shape n, melee_movement n)) (melee_nodes [melee_entry]))"
    by blast
  then have a: "\<exists>r. analyze_melee_attacks [melee_entry] = Inr (Some r) \<and>
        ml_shapes r = [(''arc'', 1), (''unknown'', 1)] \<and>
        ml_movements r = [(''stationary'', 2)] \<and>
        ml_shape_movement_combos r = [((''arc'', ''stationary''), 1), ((''unknown'', ''stationary''), 1)]"
    by (simp only: vals)
  from melee_none_iff_no_top_level [of "[nested_melee_entry]"] e
  have b: "analyze_melee_attacks [nested_melee_entry] = Inr None" by blast
  show ?thesis by (intro conjI) (rule ne a e b)+
qed

section \<open>Properties of the strict gate\<close>

lemma has_key_map_of: "has_key k obj \<longleftrightarrow> map_of obj k \<noteq> None"
  by (simp add: has_key_def map_of_eq_None_iff)

lemma find_required_None:
  "find (\<lambda>field. \<not> has_key field obj) required_fields = None \<longleftrightarrow>
     has_key ''name'' obj \<and> has_key ''description'' obj \<and> has_key ''color'' obj \<and>
     has_key ''ability'' obj"
  by (auto simp add: required_fields_def)

lemma invalid_primitives_iff:
  "invalid_primitives v = Inr b \<Longrightarrow> (b \<longleftrightarrow> \<not> primitives_ok v)"
  by (cases v)
     (auto simp add: invalid_primitives_def primitives_ok_def py_contains_def py_getitem_def
        has_key_map_of split: sum.splits option.splits if_splits)

lemma primitives_ok_valid: "primitives_ok v \<Longrightarrow> invalid_primitives v = Inr False"
  by (cases v)
     (auto simp add: invalid_primitives_def primitives_ok_def py_contains_def py_getitem_def
        has_key_map_of split: sum.splits option.splits if_splits)

lemma missing_effects_obj:
  "missing_effects (JObj ab) = Inr (\<not> effects_ok (JObj ab))"
  by (auto simp add: missing_effects_def effects_ok_def py_contains_def py_getitem_def
        has_key_map_of split: option.splits)

lemma cooldown_obj: "py_contains ''cooldown'' (JObj ab) = Inr (cooldown_ok (JObj ab))"
  by (simp add: py_contains_def cooldown_ok_def)

lemma primitives_ok_obj: "primitives_ok v \<Longrightarrow> \<exists>ab. v = JObj ab"
  by (cases v) (simp_all add: primitives_ok_def)

lemma validate_with_fields:
  assumes "find (\<lambda>field. \<not> has_key field obj) required_fields = None"
      and "map_of obj ''ability'' = Some v"
  shows "validate_ability obj =
           (case invalid_primitives v of
              Inl e \<Rightarrow> Inl e
            | Inr True \<Rightarrow> Inr (False, ''Invalid primitives (must have exactly 2)'')
            | Inr False \<Rightarrow>
                if \<not> effects_ok v then Inr (False, ''Missing effects'')
                else if \<not> cooldown_ok v then Inr (False, ''Missing cooldown'')
                else Inr (True, ''OK''))"
proof (cases "invalid_primitives v")
  case (Inl e)
  with assms show ?thesis by (simp add: validate_ability_def)
next
  case (Inr b)
  show ?thesis
  proof (cases b)
    case True
    with Inr assms show ?thesis by (simp add: validate_ability_def)
  next
    case False
    with Inr invalid_primitives_iff [of v b] have "primitives_ok v" by simp
    then obtain ab where "v = JObj ab" using primitives_ok_obj by blast
    with Inr False assms show ?thesis
      by (simp add: validate_ability_def missing_effects_obj cooldown_obj)
  qed
qed

lemma validate_returns:
  assumes "validate_ability obj = Inr (b, msg)"
  shows "if b then first_violation obj = None \<and> msg = ''OK'' \<and> strict_gate obj
         else first_violation obj = Some msg"
proof (cases "find (\<lambda>field. \<not> has_key field obj) required_fields")
  case (Some f)
  with assms show ?thesis
    by (auto simp add: validate_ability_def first_violation_def)
next
  case None
  then have keys: "has_key ''name'' obj" "has_key ''description'' obj" "has_key ''color'' obj"
    "has_key ''ability'' obj"
    by (simp_all add: find_required_None)
  then obtain v where v: "map_of obj ''ability'' = Some v"
    by (auto simp add: has_key_map_of)
  from validate_with_fields [OF None v] assms invalid_primitives_iff [of v]
  show ?thesis
    using keys
    by (auto simp add: first_violation_def strict_gate_def None v
          split: sum.splits bool.splits if_splits)
qed

lemma strict_gate_accepts:
  assumes "strict_gate obj"
  shows "validate_ability obj = Inr (True, ''OK'')"
proof -
  from assms obtain v where v: "map_of obj ''ability'' = Some v"
    and ok: "primitives_ok v" "effects_ok v" "cooldown_ok v"
    and keys: "has_key ''name'' obj" "has_key ''description'' obj" "has_key ''color'' obj"
    by (auto simp add: strict_gate_def split: option.splits)
  from v have "has_key ''ability'' obj" by (simp add: has_key_map_of)
  with keys have none: "find (\<lambda>field. \<not> has_key field obj) required_fields = None"
    by (simp add: find_required_None)
  from validate_with_fields [OF none v] primitives_ok_valid [OF ok(1)] ok
  show ?thesis by simp
qed

lemma strict_gate_consequences:
  assumes "strict_gate obj"
  shows "\<exists>ab p e. map_of obj ''ability'' = Some (JObj ab) \<and>
           map_of ab ''primitives'' = Some p \<and> py_len p = Inr 2 \<and>
           map_of ab ''effects'' = Some e \<and> py_truthy e \<and>
           (\<forall>n. py_len e = Inr n \<longrightarrow> 0 < n) \<and>
           has_key ''cooldown'' ab"
proof -
  from assms obtain v where v: "map_of obj ''ability'' = Some v"
    and ok: "primitives_ok v" "effects_ok v" "cooldown_ok v"
    by (auto simp add: strict_gate_def split: option.splits)
  from ok(1) obtain ab where ab: "v = JObj ab" using primitives_ok_obj by blast
  from ok(1) ab obtain p where p: "map_of ab ''primitives'' = Some p" "py_len p = Inr 2"
    by (auto simp add: primitives_ok_def split: option.splits)
  from ok(2) ab obtain e where e: "map_of ab ''effects'' = Some e" "py_truthy e"
    by (auto simp add: effects_ok_def split: option.splits)
  from e(2) have "\<forall>n. py_len e = Inr n \<longrightarrow> 0 < n"
    by (cases e) (auto simp add: py_truthy_def py_len_def)
  with v ab p e ok(3) show ?thesis by (auto simp add: cooldown_ok_def)
qed

lemma validation_loop_valid:
  "for_each validation_step st objs = Inr (valid, k) \<Longrightarrow>
     (\<forall>x \<in> set (fst st). strict_gate x) \<Longrightarrow> (\<forall>x \<in> set valid. strict_gate x)"
proof (induction objs arbitrary: st)
  case Nil
  then show ?case by simp
next
  case (Cons obj objs)
  from Cons.prems(1) obtain st' where s: "validation_step st obj = Inr st'"
    and rest: "for_each validation_step st' objs = Inr (valid, k)"
    by (auto split: sum.splits)
  from s obtain b msg where r: "validate_ability obj = Inr (b, msg)"
    by (auto simp add: validation_step_def split: sum.splits)
  have "\<forall>x \<in> set (fst st'). strict_gate x"
    using s r validate_returns [OF r] Cons.prems(2)
    by (auto simp add: validation_step_def split: if_splits)
  with Cons.IH [OF rest] show ?case by blast
qed

text \<open>
  Claim C5, as amended. \<open>validate_ability\<close> accepts an object if and only if it has the
  keys \<open>name\<close>, \<open>description\<close>, \<open>color\<close> and \<open>ability\<close>, \<open>ability.primitives\<close> is
  present with length exactly 2, \<open>ability.effects\<close> is present and true in Python's sense
  (for a list, a string or a dict: not empty; a number other than 0 or \<open>true\<close> passes
  too), and \<open>ability.cooldown\<close> is present. So every record of the valid output has
  \<open>len(ability.primitives) == 2\<close>, a true \<open>ability.effects\<close> (of positive length
  whenever it has a length) and a cooldown; and every rejection the validator returns
  carries the reason string of the first violated constraint.
\<close>

theorem strict_gate_characterised:
  "(validate_ability obj = Inr (True, ''OK'') \<longleftrightarrow> strict_gate obj)
   \<and> (strict_gate obj \<longrightarrow>
         (\<exists>ab p e. map_of obj ''ability'' = Some (JObj ab) \<and>
            map_of ab ''primitives'' = Some p \<and> py_len p = Inr 2 \<and>
            map_of ab ''effects'' = Some e \<and> py_truthy e \<and>
            (\<forall>n. py_len e = Inr n \<longrightarrow> 0 < n) \<and>
            has_key ''cooldown'' ab))
   \<and> (\<forall>msg. validate_ability obj = Inr (False, msg) \<longrightarrow> first_violation obj = Some msg)
   \<and> (\<forall>valid k. main_validation objs = Inr (valid, k) \<longrightarrow> (\<forall>x \<in> set valid. strict_gate x))"
proof (intro conjI)
  show "validate_ability obj = Inr (True, ''OK'') \<longleftrightarrow> strict_gate obj"
    using validate_returns [of obj True "''OK''"] strict_gate_accepts [of obj] by auto
next
  show "strict_gate obj \<longrightarrow>
         (\<exists>ab p e. map_of obj ''ability'' = Some (JObj ab) \<and>
            map_of ab ''primitives'' = Some p \<and> py_len p = Inr 2 \<and>
            map_of ab ''effects'' = Some e \<and> py_truthy e \<and>
            (\<forall>n. py_len e = Inr n \<longrightarrow> 0 < n) \<and>
            has_key ''cooldown'' ab)"
    using strict_gate_consequences [of obj] by blast
next
  show "\<forall>msg. validate_ability obj = Inr (False, msg) \<longrightarrow> first_violation obj = Some msg"
    using validate_returns [of obj False] by auto
next
  show "\<forall>valid k. main_validation objs = Inr (valid, k) \<longrightarrow> (\<forall>x \<in> set valid. strict_gate x)"
    using validation_loop_valid [of "([], 0)" objs] by (auto simp add: main_validation_def)
qed

text \<open>
  Claim C5 as stated fails: the validator tests \<open>not ability['effects']\<close>, not a length.
  An object whose \<open>effects\<close> is the number 1 is accepted and reaches the valid output,
  and \<open>len\<close> of its \<open>effects\<close> is a \<open>TypeError\<close>, not a positive number.
\<close>

theorem numeric_effects_counterexample:
  "validate_ability numeric_effects_obj = Inr (True, ''OK'') \<and>
   main_validation [numeric_effects_obj] = Inr ([numeric_effects_obj], 0) \<and>
   map_of numeric_effects_obj ''ability'' =
     Some (JObj [(''primitives'', JArr [JStr ''fire'', JStr ''fire'']),
                 (''effects'', JNum 1), (''cooldown'', JNum 3)]) \<and>
   py_len (JNum 1) = Inl TypeError"
  by (simp add: validate_ability_def numeric_effects_obj_def required_fields_def has_key_def
        invalid_primitives_def missing_effects_def py_contains_def py_getitem_def py_len_def
        py_truthy_def main_validation_def validation_step_def)

theorem strict_gate_characterised_witness:
  "validate_ability good_obj = Inr (True, ''OK'') \<and> strict_gate good_obj \<and>
   (\<exists>ab p e. map_of good_obj ''ability'' = Some (JObj ab) \<and>
      map_of ab ''primitives'' = Some p \<and> py_len p = Inr 2 \<and>
      map_of ab ''effects'' = Some e \<and> py_truthy e \<and>
      py_len e = Inr 1 \<and> has_key ''cooldown'' ab) \<and>
   validate_ability three_primitives_obj = Inr (False, ''Invalid primitives (must have exactly 2)'') \<and>
   first_violation three_primitives_obj = Some ''Invalid primitives (must have exactly 2)'' \<and>
   validate_ability no_color_obj = Inr (False, ''Missing field: color'') \<and>
   first_violation no_color_obj = Some ''Missing field: color'' \<and>
   main_validation [good_obj, three_primitives_obj] = Inr ([good_obj], 1) \<and>
   good_obj \<in> set [good_obj] \<and> strict_gate good_obj"
proof -
  have v1: "validate_ability good_obj = Inr (True, ''OK'')"
    by (simp add: validate_ability_def good_obj_def required_fields_def has_key_def
        invalid_primitives_def missing_effects_def py_contains_def py_getitem_def py_len_def
        py_truthy_def)
  have v2: "validate_ability three_primitives_obj = Inr (False, ''Invalid primitives (must have exactly 2)'')"
    by (simp add: validate_ability_def three_primitives_obj_def required_fields_def has_key_def
        invalid_primitives_def missing_effects_def py_contains_def py_getitem_def py_len_def
        py_truthy_def)
  have v3: "validate_ability no_color_obj = Inr (False, ''Missing field: color'')"
    by (simp add: validate_ability_def no_color_obj_def required_fields_def has_key_def)
  have m: "main_validation [good_obj, three_primitives_obj] = Inr ([good_obj], 1)"
    by (simp add: main_validation_def validation_step_def v1 v2)
  note g = strict_gate_characterised [of good_obj "[good_obj, three_primitives_obj]"]
  from g v1 have sg: "strict_gate good_obj" by blast
  from g sg obtain ab p e where abpe: "map_of good_obj ''ability'' = Some (JObj ab)"
      "map_of ab ''primitives'' = Some p" "py_len p = Inr 2"
      "map_of ab ''effects'' = Some e" "py_truthy e" "has_key ''cooldown'' ab"
    by blast
  from abpe(1,4) have "py_len e = Inr 1"
    by (auto simp add: good_obj_def py_len_def)
  with abpe have ex: "\<exists>ab p e. map_of good_obj ''ability'' = Some (JObj ab) \<and>
      map_of ab ''primitives'' = Some p \<and> py_len p = Inr 2 \<and>
      map_of ab ''effects'' = Some e \<and> py_truthy e \<and>
      py_len e = Inr 1 \<and> has_key ''cooldown'' ab"
    by blast
  from strict_gate_characterised [of three_primitives_obj "[]"] v2
  have f2: "first_violation three_primitives_obj = Some ''Invalid primitives (must have exactly 2)''"
    by blast
  from strict_gate_characterised [of no_color_obj "[]"] v3
  have f3: "first_violation no_color_obj = Some ''Missing field: color''"
    by blast
  from g m have "\<forall>x \<in> set [good_obj]. strict_gate x" by blast
  then have sg': "strict_gate good_obj" by simp
  have mem: "good_obj \<in> set [good_obj]" by simp
  show ?thesis
    by (intro conjI) (rule v1 sg ex v2 f2 v3 f3 m mem sg')+
qed

text \<open>
  Where the value under \<open>ability\<close> is not a dict the validator can raise instead of
  rejecting: \<open>'primitives' in None\<close> is a \<open>TypeError\<close>.
\<close>

lemma validate_ability_null_raises:
  "validate_ability [(''name'', JStr ''n''), (''description'', JStr ''d''), (''color'', JStr ''c''),
                     (''ability'', JNull)] = Inl TypeError"
  by (simp add: validate_ability_def required_fields_def has_key_def invalid_primitives_def
        py_contains_def)

end
